(* ===== verification/Prelude.thy ===== *)
theory Prelude
  imports Main "HOL-Library.Sublist" "HOL-Library.Multiset" "HOL-Library.Word"
    "HOL-Library.Code_Target_Numeral"
begin

text \<open>
  The vocabulary every component of the server uses: the error values that stand for the C++
  exceptions and for undefined behaviour, and a sequencing operator on results. The two
  collections gather the rules that component proofs feed to the simplifier: \<open>outcome_simps\<close>
  for results of fallible code and \<open>io_simps\<close> for stream and string reading.
\<close>

named_theorems outcome_simps \<open>rewriting of results of fallible code\<close>
named_theorems io_simps \<open>reading of streams and strings\<close>

section \<open>Errors as values\<close>

text \<open>
  One constructor per exception class the source raises or receives from the standard library.
  \<open>Out_of_bounds\<close> is not an exception: it marks the undefined behaviour of \<open>operator[]\<close> or
  \<open>back()\<close> outside a vector, which no \<open>catch\<close> intercepts.
\<close>

datatype cpp_error =
    Invalid_argument string
  | Out_of_range string
  | Runtime_error string
  | Overflow_error string
  | Filesystem_error string
  | Out_of_bounds

fun what :: "cpp_error \<Rightarrow> string" where
  "what (Invalid_argument m) = m"
| "what (Out_of_range m) = m"
| "what (Runtime_error m) = m"
| "what (Overflow_error m) = m"
| "what (Filesystem_error m) = m"
| "what Out_of_bounds = []"

fun is_exception :: "cpp_error \<Rightarrow> bool" where
  "is_exception Out_of_bounds = False"
| "is_exception _ = True"

type_synonym 'a outcome = "cpp_error + 'a"

fun andThen :: "'a outcome \<Rightarrow> ('a \<Rightarrow> 'b outcome) \<Rightarrow> 'b outcome" where
  "andThen (Inl e) f = Inl e"
| "andThen (Inr x) f = f x"

lemma andThen_eq_Inr [outcome_simps]:
  "andThen r f = Inr y \<longleftrightarrow> (\<exists>x. r = Inr x \<and> f x = Inr y)"
  by (cases r) auto

lemma andThen_eq_Inl [outcome_simps]:
  "andThen r f = Inl e \<longleftrightarrow> r = Inl e \<or> (\<exists>x. r = Inr x \<and> f x = Inl e)"
  by (cases r) auto

lemma andThen_assoc: "andThen (andThen r f) g = andThen r (\<lambda>x. andThen (f x) g)"
  by (cases r) auto

fun succeeds :: "'a outcome \<Rightarrow> bool" where
  "succeeds (Inl e) = False"
| "succeeds (Inr x) = True"

lemma succeeds_iff [outcome_simps]: "succeeds r \<longleftrightarrow> (\<exists>x. r = Inr x)"
  by (cases r) auto

section \<open>Bytes\<close>

text \<open>A \<open>std::string\<close> is a list of bytes; a \<open>char\<close> of HOL is a byte.\<close>

abbreviation LF :: char where "LF \<equiv> CHR 0x0A"
abbreviation CR :: char where "CR \<equiv> CHR 0x0D"
abbreviation TAB :: char where "TAB \<equiv> CHR 0x09"
abbreviation SP :: char where "SP \<equiv> CHR 0x20"
abbreviation DQUOTE :: char where "DQUOTE \<equiv> CHR 0x22"
abbreviation SQUOTE :: char where "SQUOTE \<equiv> CHR 0x27"
abbreviation CRLF :: string where "CRLF \<equiv> [CR, LF]"

section \<open>Generic lemmas on lists\<close>

lemma takeWhile_append_stop [simp]:
  "\<forall>x \<in> set xs. P x \<Longrightarrow> \<not> P y \<Longrightarrow> takeWhile P (xs @ y # ys) = xs"
  by (induction xs) auto

lemma dropWhile_append_stop [simp]:
  "\<forall>x \<in> set xs. P x \<Longrightarrow> \<not> P y \<Longrightarrow> dropWhile P (xs @ y # ys) = y # ys"
  by (induction xs) auto

lemma takeWhile_neq_append [simp]:
  "d \<notin> set xs \<Longrightarrow> takeWhile (\<lambda>c. c \<noteq> d) (xs @ d # ys) = xs"
  by (induction xs) auto

lemma dropWhile_neq_append [simp]:
  "d \<notin> set xs \<Longrightarrow> dropWhile (\<lambda>c. c \<noteq> d) (xs @ d # ys) = d # ys"
  by (induction xs) auto

lemma takeWhile_neq_all [simp]: "d \<notin> set xs \<Longrightarrow> takeWhile (\<lambda>c. c \<noteq> d) xs = xs"
  by (induction xs) auto

lemma dropWhile_neq_all [simp]: "d \<notin> set xs \<Longrightarrow> dropWhile (\<lambda>c. c \<noteq> d) xs = []"
  by (induction xs) auto

lemma butlast_last_snoc: "xs \<noteq> [] \<Longrightarrow> last xs = x \<Longrightarrow> butlast xs @ [x] = xs"
  by (metis append_butlast_last_id)

lemma length_tl_dropWhile_le: "length (tl (dropWhile P xs)) \<le> length xs"
  using length_dropWhile_le [of P xs] by simp

lemma length_tl_dropWhile_less: "xs \<noteq> [] \<Longrightarrow> length (tl (dropWhile P xs)) < length xs"
proof (cases xs)
  case (Cons x ys)
  then show ?thesis
    using length_dropWhile_le [of P ys] by auto
qed simp

lemma sort_eq_if_mset_eq:
  fixes xs ys :: "'a::linorder list"
  shows "mset xs = mset ys \<Longrightarrow> sort xs = sort ys"
  by (rule properties_for_sort) simp_all

end
