(* ===== verification/Std_String.thy ===== *)
theory Std_String
  imports Prelude
begin

text \<open>
  The parts of \<open>std::string\<close>, \<open>std::istringstream\<close> and \<open><cctype>\<close> that the server uses, on
  lists of bytes. A position that the library reports as \<open>npos\<close> is \<open>None\<close>. Classification of
  characters is that of the "C" locale, which the program never changes. \<open>substr(pos, n)\<close> is
  \<open>take n (drop pos s)\<close>: every call in the source has \<open>pos\<close> at most the size, because \<open>pos\<close>
  comes from a successful search (\<open>str_find_bound\<close> below) or from a matched prefix.
\<close>

section \<open>Searching\<close>

fun str_find :: "'a list \<Rightarrow> 'a list \<Rightarrow> nat option" where
  "str_find pat [] = (if pat = [] then Some 0 else None)"
| "str_find pat (c # s) =
     (if prefix pat (c # s) then Some 0 else map_option Suc (str_find pat s))"

definition str_find_from :: "'a list \<Rightarrow> nat \<Rightarrow> 'a list \<Rightarrow> nat option" where
  "str_find_from pat pos s =
     (if length s < pos then None else map_option (\<lambda>i. pos + i) (str_find pat (drop pos s)))"

definition contains :: "'a list \<Rightarrow> 'a list \<Rightarrow> bool" where
  "contains pat s \<longleftrightarrow> str_find pat s \<noteq> None"

fun find_first_not_of :: "'a list \<Rightarrow> 'a list \<Rightarrow> nat option" where
  "find_first_not_of cs [] = None"
| "find_first_not_of cs (c # s) =
     (if c \<in> set cs then map_option Suc (find_first_not_of cs s) else Some 0)"

definition find_last_not_of :: "'a list \<Rightarrow> 'a list \<Rightarrow> nat option" where
  "find_last_not_of cs s = map_option (\<lambda>i. length s - 1 - i) (find_first_not_of cs (rev s))"

lemma contains_iff_sublist: "contains pat s \<longleftrightarrow> sublist pat s"
  by (induction pat s rule: str_find.induct) (auto simp: contains_def sublist_Cons_right)

lemma str_find_None_iff: "str_find pat s = None \<longleftrightarrow> \<not> sublist pat s"
  using contains_iff_sublist [of pat s] by (auto simp: contains_def)

lemma str_find_Some_split:
  "str_find pat s = Some i \<Longrightarrow> \<exists>post. s = take i s @ pat @ post"
proof (induction pat s arbitrary: i rule: str_find.induct)
  case (1 pat)
  then show ?case by (auto split: if_splits)
next
  case (2 pat c s)
  show ?case
  proof (cases "prefix pat (c # s)")
    case True
    with "2.prems" show ?thesis by (auto simp: prefix_def)
  next
    case False
    with "2.prems" obtain j where "i = Suc j" "str_find pat s = Some j" by auto
    with "2.IH" [OF False] show ?thesis by auto
  qed
qed

lemma str_find_bound [io_simps]:
  "str_find pat s = Some i \<Longrightarrow> i + length pat \<le> length s"
proof (induction pat s arbitrary: i rule: str_find.induct)
  case (2 pat c s)
  then show ?case
    by (force split: if_splits dest: prefix_length_le)
qed (auto split: if_splits)

lemma str_find_first:
  "str_find pat s = Some i \<Longrightarrow> j < i \<Longrightarrow> \<not> prefix pat (drop j s)"
proof (induction pat s arbitrary: i j rule: str_find.induct)
  case (2 pat c s)
  then show ?case
    by (cases j) (auto split: if_splits)
qed (auto split: if_splits)

lemma str_find_append:
  "str_find pat s = Some i \<Longrightarrow> str_find pat (s @ t) = Some i"
proof (induction pat s arbitrary: i rule: str_find.induct)
  case (1 pat)
  then show ?case by (cases t) (auto split: if_splits)
next
  case (2 pat c s)
  show ?case
  proof (cases "prefix pat (c # s)")
    case True
    then have "prefix pat (c # s @ t)"
      using prefix_prefix [of pat "c # s" t] by simp
    with True "2.prems" show ?thesis by simp
  next
    case False
    with "2.prems" obtain j where j: "i = Suc j" "str_find pat s = Some j" by auto
    have "\<not> prefix pat (c # s @ t)"
    proof
      assume a: "prefix pat (c # s @ t)"
      have "length pat \<le> length s"
        using str_find_bound [OF j(2)] by simp
      with a have "prefix pat (c # s)"
        using prefix_length_prefix [of pat "c # s @ t" "c # s"] by simp
      with False show False ..
    qed
    with "2.IH" [OF False j(2)] j(1) show ?thesis by simp
  qed
qed

lemma contains_append: "contains pat s \<Longrightarrow> contains pat (s @ t)"
  by (auto simp: contains_def dest: str_find_append)

lemma contains_appendI: "contains pat (a @ pat @ b)"
  by (simp add: contains_iff_sublist)

lemma str_find_char [io_simps, simp]:
  "c \<notin> set p \<Longrightarrow> str_find [c] (p @ c # r) = Some (length p)"
  by (induction p) auto

lemma str_find_char_None [simp]: "str_find [c] s = None \<longleftrightarrow> c \<notin> set s"
  by (induction s) auto

lemma str_find_char_Some:
  "str_find [c] s = Some i \<Longrightarrow> s = take i s @ c # drop (Suc i) s \<and> c \<notin> set (take i s)"
proof (induction s arbitrary: i)
  case (Cons a s)
  then show ?case by (cases "a = c") auto
qed simp

lemma str_find_char_eq:
  "str_find [c] s = (if c \<in> set s then Some (length (takeWhile (\<lambda>x. x \<noteq> c) s)) else None)"
  by (induction s) auto

lemma cut_at_char:
  "(case str_find [c] s of None \<Rightarrow> s | Some i \<Rightarrow> take i s) = takeWhile (\<lambda>x. x \<noteq> c) s"
proof (cases "c \<in> set s")
  case True
  then show ?thesis by (simp add: str_find_char_eq takeWhile_eq_take [symmetric])
qed (simp add: str_find_char_eq)

lemma find_first_not_of_eq:
  "find_first_not_of cs s =
     (if \<forall>c \<in> set s. c \<in> set cs then None else Some (length (takeWhile (\<lambda>c. c \<in> set cs) s)))"
  by (induction s) auto

lemma takeWhile_length_rev:
  "\<not> (\<forall>c \<in> set s. P c) \<Longrightarrow>
     take (length s - length (takeWhile P (rev s))) s = rev (dropWhile P (rev s))"
  by (metis append_take_drop_id dropWhile_eq_drop drop_rev length_rev rev_rev_ident)

text \<open>The text between the first and the last character outside a set.\<close>

lemma find_not_of_between:
  assumes "find_first_not_of cs s = Some i" "find_last_not_of cs s = Some j"
  shows "take (j - i + 1) (drop i s) =
           rev (dropWhile (\<lambda>c. c \<in> set cs) (rev (dropWhile (\<lambda>c. c \<in> set cs) s)))"
proof -
  define P where "P = (\<lambda>c. c \<in> set cs)"
  let ?d = "dropWhile P s"
  obtain a where a: "a \<in> set s" "\<not> P a"
    using assms(1) by (auto simp: find_first_not_of_eq P_def split: if_splits)
  have i: "i = length (takeWhile P s)" and j: "j = length s - 1 - length (takeWhile P (rev s))"
    using assms by (auto simp: find_first_not_of_eq find_last_not_of_def P_def split: if_splits)
  have d: "drop i s = ?d" by (simp add: i dropWhile_eq_drop)
  have ad: "a \<in> set ?d"
    using a by (metis Un_iff set_append set_takeWhileD takeWhile_dropWhile_id)
  have "rev s = rev ?d @ rev (takeWhile P s)"
    by (metis rev_append takeWhile_dropWhile_id)
  then have t: "takeWhile P (rev s) = takeWhile P (rev ?d)"
    using ad a(2) by (simp add: takeWhile_append1 [of a])
  have l: "length s = i + length ?d"
    by (metis d length_append append_take_drop_id length_take min.absorb2 i
        length_takeWhile_le)
  have lt: "length (takeWhile P (rev ?d)) < length ?d"
  proof -
    have "dropWhile P (rev ?d) \<noteq> []" using ad a(2) by (auto simp: dropWhile_eq_Nil_conv)
    moreover have "length (takeWhile P (rev ?d)) + length (dropWhile P (rev ?d)) = length ?d"
      by (metis length_append length_rev takeWhile_dropWhile_id)
    ultimately show ?thesis by (cases "dropWhile P (rev ?d)") auto
  qed
  have "j - i + 1 = length ?d - length (takeWhile P (rev ?d))"
    using l lt by (simp add: j t)
  then show ?thesis
    using takeWhile_length_rev [of ?d P] ad a(2) d by (auto simp: P_def)
qed

section \<open>Character classes\<close>

definition isspace :: "char \<Rightarrow> bool" where
  "isspace c \<longleftrightarrow> c \<in> {SP, TAB, LF, CHR 0x0B, CHR 0x0C, CR}"

definition isdigit :: "char \<Rightarrow> bool" where
  "isdigit c \<longleftrightarrow> 48 \<le> (of_char c :: nat) \<and> (of_char c :: nat) \<le> 57"

definition tolower :: "char \<Rightarrow> char" where
  "tolower c =
     (if 65 \<le> (of_char c :: nat) \<and> (of_char c :: nat) \<le> 90
      then char_of ((of_char c :: nat) + 32) else c)"

lemma tolower_idem [simp]: "tolower (tolower c) = tolower c"
  by (auto simp: tolower_def)

section \<open>Reading lines and words from a stream\<close>

text \<open>
  The stream is the text that is left. \<open>std::getline(in, line, d)\<close> fails exactly when nothing is
  left; otherwise it takes the text up to the delimiter and drops the delimiter. A stream that
  has hit its end has nothing left, so the failed state needs no flag of its own.
\<close>

definition getline :: "'a \<Rightarrow> 'a list \<Rightarrow> ('a list \<times> 'a list) option" where
  "getline d s =
     (if s = [] then None
      else Some (takeWhile (\<lambda>c. c \<noteq> d) s, tl (dropWhile (\<lambda>c. c \<noteq> d) s)))"

lemma getline_Nil [simp]: "getline d [] = None"
  by (simp add: getline_def)

lemma getline_line [simp, io_simps]:
  "d \<notin> set l \<Longrightarrow> getline d (l @ d # r) = Some (l, r)"
  by (simp add: getline_def)

lemma getline_last_line [io_simps]:
  "d \<notin> set l \<Longrightarrow> l \<noteq> [] \<Longrightarrow> getline d l = Some (l, [])"
  by (simp add: getline_def)

lemma getline_shrinks: "getline d s = Some (l, r) \<Longrightarrow> length r < length s"
  using length_tl_dropWhile_less [of s "\<lambda>c. c \<noteq> d"] 
  by (auto simp: getline_def simp del: length_tl split: if_splits)

lemma getline_no_delim: "getline d s = Some (l, r) \<Longrightarrow> d \<notin> set l"
  by (auto simp: getline_def split: if_splits dest: set_takeWhileD)

text \<open>The lines a \<open>while (std::getline(in, line, d))\<close> loop sees.\<close>

function getlines :: "'a \<Rightarrow> 'a list \<Rightarrow> 'a list list" where
  "getlines d s = (case getline d s of None \<Rightarrow> [] | Some (l, r) \<Rightarrow> l # getlines d r)"
  by pat_completeness auto
termination
  by (relation "measure (\<lambda>(d, s). length s)") (auto dest: getline_shrinks)

declare getlines.simps [simp del]

lemma getlines_Nil [simp]: "getlines d [] = []"
  by (simp add: getlines.simps)

lemma getlines_line [simp, io_simps]:
  "d \<notin> set l \<Longrightarrow> getlines d (l @ d # r) = l # getlines d r"
  by (subst getlines.simps) simp

lemma getlines_last [io_simps]: "d \<notin> set l \<Longrightarrow> l \<noteq> [] \<Longrightarrow> getlines d l = [l]"
  by (subst getlines.simps) (simp add: getline_last_line)

lemma getlines_no_delim: "l \<in> set (getlines d s) \<Longrightarrow> d \<notin> set l"
proof (induction d s rule: getlines.induct)
  case (1 d s)
  show ?case
  proof (cases "getline d s")
    case None
    with "1.prems" show ?thesis by (simp add: getlines.simps [of d s])
  next
    case (Some p)
    with "1.prems" "1.IH" show ?thesis
      by (cases p) (auto simp: getlines.simps [of d s] dest: getline_no_delim)
  qed
qed

lemma split_at_first: "d \<in> set s \<Longrightarrow> \<exists>l r. s = l @ d # r \<and> d \<notin> set l"
  by (rule split_list_first)

text \<open>\<open>in >> word\<close>: skip white space, then take up to the next white space; fails on nothing.\<close>

definition extract_word :: "string \<Rightarrow> (string \<times> string) option" where
  "extract_word s =
     (let t = dropWhile isspace s
      in if t = [] then None
         else Some (takeWhile (\<lambda>c. \<not> isspace c) t, dropWhile (\<lambda>c. \<not> isspace c) t))"

lemma extract_word_word [io_simps]:
  assumes "w \<noteq> []" "\<forall>c \<in> set w. \<not> isspace c" "isspace d" "\<forall>c \<in> set ws. isspace c"
  shows "extract_word (ws @ w @ d # r) = Some (w, d # r)"
proof -
  obtain a w' where w: "w = a # w'" using assms(1) by (cases w) auto
  with assms have "dropWhile isspace (ws @ w @ d # r) = w @ d # r" by simp
  moreover have "takeWhile (\<lambda>c. \<not> isspace c) (w @ d # r) = w"
    and "dropWhile (\<lambda>c. \<not> isspace c) (w @ d # r) = d # r"
    using assms by simp_all
  ultimately show ?thesis using assms(1) by (simp add: extract_word_def)
qed

text \<open>\<open>c_str()\<close> as \<open>printf\<close> reads it: up to the first NUL.\<close>

definition c_str :: "string \<Rightarrow> string" where
  "c_str s = takeWhile (\<lambda>c. c \<noteq> CHR 0x00) s"

lemma c_str_id: "CHR 0x00 \<notin> set s \<Longrightarrow> c_str s = s"
  by (simp add: c_str_def)

lemma extract_word_Some:
  "extract_word s = Some (w, r) \<Longrightarrow> w \<noteq> [] \<and> (\<forall>c \<in> set w. \<not> isspace c)"
  using hd_dropWhile [of isspace s]
  by (auto simp: extract_word_def Let_def takeWhile_eq_Nil_iff split: if_splits dest: set_takeWhileD)

end
