(* ===== verification/Config_Parser.thy ===== *)
theory Config_Parser
  imports Std_String
begin

text \<open>
  The nginx-style configuration parser (src/config_parser.cc, include/config_parser.h): the tree
  it builds, the serialiser \<open>ToString\<close>, the character-level state machine \<open>ParseToken\<close> and the
  token-level loop \<open>Parse\<close>. The stream is the text that is left; \<open>unget\<close> gives a character back
  to it. \<open>config_stack\<close> holds pointers into the tree that is being built: its bottom is the
  caller's \<open>NginxConfig\<close> and each entry above it is the child block of the last statement of the
  entry below, so the stack is given by its height, and \<open>at_top\<close> follows the chain. A call of
  \<open>back()\<close> on an empty vector, or a broken chain, is undefined behaviour and yields
  \<open>Inl Out_of_bounds\<close>.
\<close>

section \<open>The tree and its serialiser\<close>

datatype nginx_config = NginxConfig (statements: "nginx_statement list")
and nginx_statement = NginxConfigStatement (tokens: "string list") (child_block: "nginx_config option")

definition indentation :: "nat \<Rightarrow> string" where
  "indentation depth = concat (replicate depth ''  '')"

fun append_tokens :: "nat \<Rightarrow> string list \<Rightarrow> string" where
  "append_tokens i [] = []"
| "append_tokens i (t # ts) = (if i \<noteq> 0 then [SP] else []) @ t @ append_tokens (Suc i) ts"

fun config_to_string :: "nat \<Rightarrow> nginx_config \<Rightarrow> string"
  and statement_to_string :: "nat \<Rightarrow> nginx_statement \<Rightarrow> string" where
  "config_to_string depth (NginxConfig ss) = concat (map (statement_to_string depth) ss)"
| "statement_to_string depth (NginxConfigStatement ts child) =
     indentation depth @ append_tokens 0 ts @
     (case child of
        Some c \<Rightarrow> [SP, CHR ''{'', LF] @ config_to_string (depth + 1) c @ indentation depth @ ''}''
      | None \<Rightarrow> '';'') @
     [LF]"

section \<open>Tokens\<close>

datatype token_type =
    TOKEN_TYPE_START | TOKEN_TYPE_NORMAL | TOKEN_TYPE_START_BLOCK | TOKEN_TYPE_END_BLOCK
  | TOKEN_TYPE_COMMENT | TOKEN_TYPE_STATEMENT_END | TOKEN_TYPE_EOF | TOKEN_TYPE_ERROR

fun token_type_as_string :: "token_type \<Rightarrow> string" where
  "token_type_as_string TOKEN_TYPE_START = ''TOKEN_TYPE_START''"
| "token_type_as_string TOKEN_TYPE_NORMAL = ''TOKEN_TYPE_NORMAL''"
| "token_type_as_string TOKEN_TYPE_START_BLOCK = ''TOKEN_TYPE_START_BLOCK''"
| "token_type_as_string TOKEN_TYPE_END_BLOCK = ''TOKEN_TYPE_END_BLOCK''"
| "token_type_as_string TOKEN_TYPE_COMMENT = ''TOKEN_TYPE_COMMENT''"
| "token_type_as_string TOKEN_TYPE_STATEMENT_END = ''TOKEN_TYPE_STATEMENT_END''"
| "token_type_as_string TOKEN_TYPE_EOF = ''TOKEN_TYPE_EOF''"
| "token_type_as_string TOKEN_TYPE_ERROR = ''TOKEN_TYPE_ERROR''"

datatype token_parser_state =
    TOKEN_STATE_INITIAL_WHITESPACE | TOKEN_STATE_SINGLE_QUOTE | TOKEN_STATE_DOUBLE_QUOTE
  | TOKEN_STATE_TOKEN_TYPE_COMMENT | TOKEN_STATE_TOKEN_TYPE_NORMAL

text \<open>\<open>parse_token state value input\<close>: the type, \<open>*value\<close> and the stream afterwards.\<close>

fun parse_token :: "token_parser_state \<Rightarrow> string \<Rightarrow> string \<Rightarrow> token_type \<times> string \<times> string" where
  "parse_token state v [] =
     (if state = TOKEN_STATE_SINGLE_QUOTE \<or> state = TOKEN_STATE_DOUBLE_QUOTE
      then (TOKEN_TYPE_ERROR, v, []) else (TOKEN_TYPE_EOF, v, []))"
| "parse_token TOKEN_STATE_INITIAL_WHITESPACE v (c # input) =
     (if c = CHR ''{'' then (TOKEN_TYPE_START_BLOCK, [c], input)
      else if c = CHR ''}'' then (TOKEN_TYPE_END_BLOCK, [c], input)
      else if c = CHR ''#'' then parse_token TOKEN_STATE_TOKEN_TYPE_COMMENT [c] input
      else if c = DQUOTE then parse_token TOKEN_STATE_DOUBLE_QUOTE [c] input
      else if c = SQUOTE then parse_token TOKEN_STATE_SINGLE_QUOTE [c] input
      else if c = CHR '';'' then (TOKEN_TYPE_STATEMENT_END, [c], input)
      else if c = SP \<or> c = TAB \<or> c = LF \<or> c = CR
      then parse_token TOKEN_STATE_INITIAL_WHITESPACE v input
      else parse_token TOKEN_STATE_TOKEN_TYPE_NORMAL (v @ [c]) input)"
| "parse_token TOKEN_STATE_SINGLE_QUOTE v (c # input) =
     (if c = SQUOTE then (TOKEN_TYPE_NORMAL, v @ [c], input)
      else parse_token TOKEN_STATE_SINGLE_QUOTE (v @ [c]) input)"
| "parse_token TOKEN_STATE_DOUBLE_QUOTE v (c # input) =
     (if c = DQUOTE then (TOKEN_TYPE_NORMAL, v @ [c], input)
      else parse_token TOKEN_STATE_DOUBLE_QUOTE (v @ [c]) input)"
| "parse_token TOKEN_STATE_TOKEN_TYPE_COMMENT v (c # input) =
     (if c = LF \<or> c = CR then (TOKEN_TYPE_COMMENT, v, input)
      else parse_token TOKEN_STATE_TOKEN_TYPE_COMMENT (v @ [c]) input)"
| "parse_token TOKEN_STATE_TOKEN_TYPE_NORMAL v (c # input) =
     (if c = SP \<or> c = TAB \<or> c = LF \<or> c = TAB \<or> c = CHR '';'' \<or> c = CHR ''{'' \<or> c = CHR ''}''
      then (TOKEN_TYPE_NORMAL, v, c # input)
      else if c = SQUOTE \<or> c = DQUOTE then (TOKEN_TYPE_ERROR, v, c # input)
      else parse_token TOKEN_STATE_TOKEN_TYPE_NORMAL (v @ [c]) input)"

section \<open>The tree under construction\<close>

text \<open>Applies an update to the \<open>NginxConfig\<close> at the given height of the stack.\<close>

fun at_top :: "nat \<Rightarrow> (nginx_config \<Rightarrow> nginx_config outcome) \<Rightarrow> nginx_config \<Rightarrow> nginx_config outcome" where
  "at_top 0 f c = f c"
| "at_top (Suc n) f (NginxConfig ss) =
     (if ss = [] then Inl Out_of_bounds
      else case child_block (last ss) of
        None \<Rightarrow> Inl Out_of_bounds
      | Some c \<Rightarrow>
          andThen (at_top n f c) (\<lambda>c'.
            Inr (NginxConfig (butlast ss @ [NginxConfigStatement (tokens (last ss)) (Some c')]))))"

lemma at_top_code [code]:
  "at_top n f c =
     (if n = 0 then f c
      else case c of NginxConfig ss \<Rightarrow>
        if ss = [] then Inl Out_of_bounds
        else case child_block (last ss) of
          None \<Rightarrow> Inl Out_of_bounds
        | Some c \<Rightarrow>
            andThen (at_top (n - 1) f c) (\<lambda>c'.
              Inr (NginxConfig (butlast ss @ [NginxConfigStatement (tokens (last ss)) (Some c')]))))"
  by (cases n; cases c) (simp_all split: option.split)

text \<open>\<open>statements_.emplace_back(new NginxConfigStatement)\<close>\<close>

fun add_statement :: "nginx_config \<Rightarrow> nginx_config outcome" where
  "add_statement (NginxConfig ss) = Inr (NginxConfig (ss @ [NginxConfigStatement [] None]))"

text \<open>\<open>statements_.back().get()->tokens_.push_back(token)\<close>\<close>

fun push_token :: "string \<Rightarrow> nginx_config \<Rightarrow> nginx_config outcome" where
  "push_token t (NginxConfig ss) =
     (if ss = [] then Inl Out_of_bounds
      else Inr (NginxConfig (butlast ss @
        [NginxConfigStatement (tokens (last ss) @ [t]) (child_block (last ss))])))"

text \<open>\<open>statements_.back().get()->child_block_.reset(new NginxConfig)\<close>\<close>

fun open_child :: "nginx_config \<Rightarrow> nginx_config outcome" where
  "open_child (NginxConfig ss) =
     (if ss = [] then Inl Out_of_bounds
      else Inr (NginxConfig (butlast ss @
        [NginxConfigStatement (tokens (last ss)) (Some (NginxConfig []))])))"

section \<open>The parser\<close>

record parser_state =
  out_config :: nginx_config
  config_stack :: nat
  open_block :: int
  last_token_type :: token_type
  printed :: "string list"

datatype step_result = Break | Next parser_state | Return bool | Undefined cpp_error

text \<open>What one pass of the loop does with the token it has read.\<close>

fun parse_step :: "parser_state \<Rightarrow> token_type \<Rightarrow> string \<Rightarrow> step_result" where
  "parse_step st TOKEN_TYPE_ERROR token = Break"
| "parse_step st TOKEN_TYPE_COMMENT token = Next st"
| "parse_step st TOKEN_TYPE_START token = Break"
| "parse_step st TOKEN_TYPE_NORMAL token =
     (if last_token_type st = TOKEN_TYPE_START \<or> last_token_type st = TOKEN_TYPE_STATEMENT_END \<or>
         last_token_type st = TOKEN_TYPE_START_BLOCK \<or> last_token_type st = TOKEN_TYPE_END_BLOCK \<or>
         last_token_type st = TOKEN_TYPE_NORMAL
      then (case andThen
                   (if last_token_type st \<noteq> TOKEN_TYPE_NORMAL
                    then at_top (config_stack st) add_statement (out_config st)
                    else Inr (out_config st))
                   (at_top (config_stack st) (push_token token)) of
              Inl e \<Rightarrow> Undefined e
            | Inr c \<Rightarrow> Next (st\<lparr>out_config := c, last_token_type := TOKEN_TYPE_NORMAL\<rparr>))
      else Break)"
| "parse_step st TOKEN_TYPE_STATEMENT_END token =
     (if last_token_type st \<noteq> TOKEN_TYPE_NORMAL then Break
      else Next (st\<lparr>last_token_type := TOKEN_TYPE_STATEMENT_END\<rparr>))"
| "parse_step st TOKEN_TYPE_START_BLOCK token =
     (if last_token_type st \<noteq> TOKEN_TYPE_NORMAL then Break
      else (case at_top (config_stack st) open_child (out_config st) of
              Inl e \<Rightarrow> Undefined e
            | Inr c \<Rightarrow> Next (st\<lparr>out_config := c, config_stack := config_stack st + 1,
                open_block := open_block st + 1, last_token_type := TOKEN_TYPE_START_BLOCK\<rparr>)))"
| "parse_step st TOKEN_TYPE_END_BLOCK token =
     (if last_token_type st \<noteq> TOKEN_TYPE_STATEMENT_END \<and>
         last_token_type st \<noteq> TOKEN_TYPE_START_BLOCK \<and>
         last_token_type st \<noteq> TOKEN_TYPE_END_BLOCK then Break
      else if open_block st < 1 then Break
      else Next (st\<lparr>config_stack := config_stack st - 1, open_block := open_block st - 1,
             last_token_type := TOKEN_TYPE_END_BLOCK\<rparr>))"
| "parse_step st TOKEN_TYPE_EOF token =
     (if last_token_type st \<noteq> TOKEN_TYPE_STATEMENT_END \<and>
         last_token_type st \<noteq> TOKEN_TYPE_END_BLOCK \<and>
         last_token_type st \<noteq> TOKEN_TYPE_START then Break
      else Return (config_stack st + 1 = 1))"

definition print_line :: "string \<Rightarrow> parser_state \<Rightarrow> parser_state" where
  "print_line l st = st\<lparr>printed := printed st @ [l]\<rparr>"

definition token_line :: "token_type \<Rightarrow> string \<Rightarrow> string" where
  "token_line tt token = token_type_as_string tt @ '': '' @ c_str token @ [LF]"

definition bad_transition_line :: "token_type \<Rightarrow> token_type \<Rightarrow> string" where
  "bad_transition_line l tt =
     ''Bad transition from '' @ token_type_as_string l @ '' to '' @ token_type_as_string tt @ [LF]"

section \<open>Classes of characters and the moves of the token machine\<close>

text \<open>
  The proofs see a character only through its class, so that they branch on the moves of the
  machine and not on bytes.
\<close>

definition blank :: "char \<Rightarrow> bool" where
  "blank c \<longleftrightarrow> c = SP \<or> c = TAB \<or> c = LF \<or> c = CR"

definition word_stop :: "char \<Rightarrow> bool" where
  "word_stop c \<longleftrightarrow> c = SP \<or> c = TAB \<or> c = LF \<or> c = CHR '';'' \<or> c = CHR ''{'' \<or> c = CHR ''}''"

definition quote :: "char \<Rightarrow> bool" where
  "quote c \<longleftrightarrow> c = SQUOTE \<or> c = DQUOTE"

definition word_start :: "char \<Rightarrow> bool" where
  "word_start c \<longleftrightarrow> \<not> blank c \<and> \<not> word_stop c \<and> \<not> quote c \<and> c \<noteq> CHR ''#''"

definition line_end :: "char \<Rightarrow> bool" where
  "line_end c \<longleftrightarrow> c = LF \<or> c = CR"

lemma initial_cases:
  obtains "c = CHR ''{''" | "c = CHR ''}''" | "c = CHR ''#''" | "c = DQUOTE" | "c = SQUOTE"
    | "c = CHR '';''" | "blank c" | "word_start c"
  unfolding word_start_def word_stop_def quote_def blank_def by argo

lemma initial_moves [simp]:
  "parse_token TOKEN_STATE_INITIAL_WHITESPACE v (CHR ''{'' # i) = (TOKEN_TYPE_START_BLOCK, ''{'', i)"
  "parse_token TOKEN_STATE_INITIAL_WHITESPACE v (CHR ''}'' # i) = (TOKEN_TYPE_END_BLOCK, ''}'', i)"
  "parse_token TOKEN_STATE_INITIAL_WHITESPACE v (CHR ''#'' # i) =
     parse_token TOKEN_STATE_TOKEN_TYPE_COMMENT ''#'' i"
  "parse_token TOKEN_STATE_INITIAL_WHITESPACE v (DQUOTE # i) =
     parse_token TOKEN_STATE_DOUBLE_QUOTE [DQUOTE] i"
  "parse_token TOKEN_STATE_INITIAL_WHITESPACE v (SQUOTE # i) =
     parse_token TOKEN_STATE_SINGLE_QUOTE [SQUOTE] i"
  "parse_token TOKEN_STATE_INITIAL_WHITESPACE v (CHR '';'' # i) = (TOKEN_TYPE_STATEMENT_END, '';'', i)"
  by simp_all

lemma initial_blank [simp]:
  "blank c \<Longrightarrow> parse_token TOKEN_STATE_INITIAL_WHITESPACE v (c # i) =
     parse_token TOKEN_STATE_INITIAL_WHITESPACE v i"
  by (elim blank_def [THEN iffD1, elim_format] disjE) simp_all

lemma initial_word [simp]:
  "word_start c \<Longrightarrow> parse_token TOKEN_STATE_INITIAL_WHITESPACE v (c # i) =
     parse_token TOKEN_STATE_TOKEN_TYPE_NORMAL (v @ [c]) i"
  by (simp add: word_start_def word_stop_def quote_def blank_def)

lemma normal_moves [simp]:
  "word_stop c \<Longrightarrow> parse_token TOKEN_STATE_TOKEN_TYPE_NORMAL v (c # i) = (TOKEN_TYPE_NORMAL, v, c # i)"
  "quote c \<Longrightarrow> parse_token TOKEN_STATE_TOKEN_TYPE_NORMAL v (c # i) = (TOKEN_TYPE_ERROR, v, c # i)"
  "\<not> word_stop c \<Longrightarrow> \<not> quote c \<Longrightarrow> parse_token TOKEN_STATE_TOKEN_TYPE_NORMAL v (c # i) =
     parse_token TOKEN_STATE_TOKEN_TYPE_NORMAL (v @ [c]) i"
  by (auto simp: word_stop_def quote_def)

lemma comment_moves [simp]:
  "line_end c \<Longrightarrow> parse_token TOKEN_STATE_TOKEN_TYPE_COMMENT v (c # i) = (TOKEN_TYPE_COMMENT, v, i)"
  "\<not> line_end c \<Longrightarrow> parse_token TOKEN_STATE_TOKEN_TYPE_COMMENT v (c # i) =
     parse_token TOKEN_STATE_TOKEN_TYPE_COMMENT (v @ [c]) i"
  by (auto simp: line_end_def)

declare parse_token.simps(2,5,6) [simp del]

text \<open>Each pass of the loop consumes input, so the loop ends.\<close>

lemma parse_token_length:
  "length (snd (snd (parse_token state v input))) \<le> length input"
proof (induction input arbitrary: state v)
  case (Cons c input)
  note IH = Cons.IH [THEN le_SucI]
  show ?case
  proof (cases state)
    case TOKEN_STATE_INITIAL_WHITESPACE
    then show ?thesis by (cases c rule: initial_cases) (simp_all add: IH)
  next
    case TOKEN_STATE_TOKEN_TYPE_NORMAL
    then show ?thesis by (cases "word_stop c"; cases "quote c") (simp_all add: IH)
  next
    case TOKEN_STATE_TOKEN_TYPE_COMMENT
    then show ?thesis by (cases "line_end c") (simp_all add: IH)
  qed (simp_all add: IH)
qed simp

lemma parse_token_progress:
  assumes "parse_token TOKEN_STATE_INITIAL_WHITESPACE v input = (tt, tok, rest)"
    and "tt \<noteq> TOKEN_TYPE_EOF"
  shows "length rest < length input"
proof (cases input)
  case Nil
  with assms show ?thesis by simp
next
  case (Cons c i)
  have shorter: "length rest \<le> length i" if "parse_token state w i = (tt, tok, rest)" for state w
    using parse_token_length [of state w i] that by simp
  from assms Cons show ?thesis
    by (cases c rule: initial_cases) (auto simp: less_Suc_eq_le intro: shorter)
qed

lemma parse_step_Next_type:
  "parse_step st tt tok = Next st' \<Longrightarrow> tt \<noteq> TOKEN_TYPE_EOF \<and> tt \<noteq> TOKEN_TYPE_ERROR"
  by (cases tt) (auto split: if_splits)

lemma parse_step_progress:
  assumes "(tt, tok, rest) = parse_token TOKEN_STATE_INITIAL_WHITESPACE v input"
    and "parse_step st tt tok = Next st'"
  shows "length rest < length input"
  using assms(1) [symmetric] parse_step_Next_type [OF assms(2)]
  by (blast intro: parse_token_progress)

function parse_loop :: "parser_state \<Rightarrow> string \<Rightarrow> (bool \<times> parser_state) outcome" where
  "parse_loop st input =
     (let (token_type, token, rest) = parse_token TOKEN_STATE_INITIAL_WHITESPACE [] input;
          st = print_line (token_line token_type token) st
      in case parse_step st token_type token of
           Break \<Rightarrow> Inr (False, print_line (bad_transition_line (last_token_type st) token_type) st)
         | Next st' \<Rightarrow> parse_loop st' rest
         | Return b \<Rightarrow> Inr (b, st)
         | Undefined e \<Rightarrow> Inl e)"
  by pat_completeness auto
termination
  by (relation "measure (\<lambda>(st, input). length input)")
    (auto dest: parse_step_progress)

declare parse_loop.simps [simp del]

definition parse_start :: "nginx_config \<Rightarrow> parser_state" where
  "parse_start config =
     \<lparr>out_config = config, config_stack = 0, open_block = 0,
      last_token_type = TOKEN_TYPE_START, printed = []\<rparr>"

text \<open>\<open>Parse(std::istream*, NginxConfig*)\<close>: the result and the out-parameter afterwards.\<close>

definition parse_stream :: "string \<Rightarrow> nginx_config \<Rightarrow> (bool \<times> nginx_config) outcome" where
  "parse_stream input config =
     andThen (parse_loop (parse_start config) input) (\<lambda>(b, st). Inr (b, out_config st))"

text \<open>
  \<open>Parse(const char*, NginxConfig*)\<close>: the file system gives the contents of a file that can be
  opened.
\<close>

definition parse_file ::
  "(string \<Rightarrow> string option) \<Rightarrow> string \<Rightarrow> nginx_config \<Rightarrow> (bool \<times> nginx_config) outcome" where
  "parse_file open_file file_name config =
     (case open_file file_name of
        None \<Rightarrow> Inr (False, config)
      | Some text \<Rightarrow> parse_stream text config)"

text \<open>What the two functions print on standard output.\<close>

definition parse_stream_output :: "string \<Rightarrow> nginx_config \<Rightarrow> string" where
  "parse_stream_output input config =
     (case parse_loop (parse_start config) input of
        Inl e \<Rightarrow> []
      | Inr (b, st) \<Rightarrow> concat (printed st))"

definition parse_file_output ::
  "(string \<Rightarrow> string option) \<Rightarrow> string \<Rightarrow> nginx_config \<Rightarrow> string" where
  "parse_file_output open_file file_name config =
     (case open_file file_name of
        None \<Rightarrow> ''Failed to open config file: '' @ file_name @ [LF]
      | Some text \<Rightarrow> parse_stream_output text config)"

end
