(* ===== verification/Config_Lexing.thy ===== *)
theory Config_Lexing
  imports Config_Parser
begin

text \<open>
  The parser's loop separated into a lexer and a loop over tokens. \<open>lex\<close> is the sequence of
  tokens that successive calls of \<open>ParseToken\<close> return, up to the first end of file or error;
  \<open>run_tokens\<close> is the loop of \<open>Parse\<close> on such a sequence. \<open>parse_loop_lex\<close> shows that the loop of
  the code, which reads one token at a time, computes the same. The second part says which
  strings a token of type NORMAL can be and how the lexer reads them back.
\<close>

section \<open>The token sequence\<close>

function lex :: "string \<Rightarrow> (token_type \<times> string) list" where
  "lex input =
     (let (tt, tok, rest) = parse_token TOKEN_STATE_INITIAL_WHITESPACE [] input
      in if tt = TOKEN_TYPE_EOF \<or> tt = TOKEN_TYPE_ERROR then [(tt, tok)] else (tt, tok) # lex rest)"
  by pat_completeness auto
termination
  by (relation "measure length") (auto intro: parse_token_progress [OF sym])

declare lex.simps [simp del]

lemma lex_step:
  "parse_token TOKEN_STATE_INITIAL_WHITESPACE [] input = (tt, tok, rest) \<Longrightarrow>
   tt \<noteq> TOKEN_TYPE_EOF \<Longrightarrow> tt \<noteq> TOKEN_TYPE_ERROR \<Longrightarrow> lex input = (tt, tok) # lex rest"
  by (simp add: lex.simps [of input])

lemma lex_end:
  "parse_token TOKEN_STATE_INITIAL_WHITESPACE [] input = (tt, tok, rest) \<Longrightarrow>
   tt = TOKEN_TYPE_EOF \<or> tt = TOKEN_TYPE_ERROR \<Longrightarrow> lex input = [(tt, tok)]"
  by (auto simp: lex.simps [of input])

fun run_tokens :: "parser_state \<Rightarrow> (token_type \<times> string) list \<Rightarrow> (bool \<times> parser_state) outcome" where
  "run_tokens st [] = Inr (False, st)"
| "run_tokens st ((tt, tok) # ts) =
     (let st = print_line (token_line tt tok) st
      in case parse_step st tt tok of
           Break \<Rightarrow> Inr (False, print_line (bad_transition_line (last_token_type st) tt) st)
         | Next st' \<Rightarrow> run_tokens st' ts
         | Return b \<Rightarrow> Inr (b, st)
         | Undefined e \<Rightarrow> Inl e)"

lemma parse_loop_lex: "parse_loop st input = run_tokens st (lex input)"
proof (induction input arbitrary: st rule: lex.induct)
  case (1 input)
  obtain tt tok rest where
    p: "parse_token TOKEN_STATE_INITIAL_WHITESPACE [] input = (tt, tok, rest)"
    by (cases "parse_token TOKEN_STATE_INITIAL_WHITESPACE [] input") auto
  show ?case
  proof (cases "tt = TOKEN_TYPE_EOF \<or> tt = TOKEN_TYPE_ERROR")
    case True
    then show ?thesis
      by (auto simp: p lex_end parse_loop.simps [of st input] Let_def
          dest: parse_step_Next_type split: step_result.splits)
  next
    case False
    with "1.IH" [OF p [symmetric] refl] have "parse_loop st' rest = run_tokens st' (lex rest)" for st'
      by simp
    with False show ?thesis
      by (simp add: p lex_step parse_loop.simps [of st input] Let_def split: step_result.split)
  qed
qed

text \<open>A successful run prints one line for every token of the input.\<close>

lemma parse_step_keeps_printed: "parse_step st tt tok = Next st' \<Longrightarrow> printed st' = printed st"
  by (cases tt) (auto split: if_splits sum.splits)

lemma parse_step_Return_eof: "parse_step st tt tok = Return b \<Longrightarrow> tt = TOKEN_TYPE_EOF"
  by (cases tt) (auto split: if_splits sum.splits)

lemma run_tokens_trace:
  "run_tokens st (lex input) = Inr (True, st') \<Longrightarrow>
     printed st' = printed st @ map (\<lambda>(tt, tok). token_line tt tok) (lex input)"
proof (induction input arbitrary: st rule: lex.induct)
  case (1 input)
  obtain tt tok rest where
    p: "parse_token TOKEN_STATE_INITIAL_WHITESPACE [] input = (tt, tok, rest)"
    by (cases "parse_token TOKEN_STATE_INITIAL_WHITESPACE [] input") auto
  show ?case
  proof (cases "tt = TOKEN_TYPE_EOF \<or> tt = TOKEN_TYPE_ERROR")
    case True
    with "1.prems" show ?thesis
      by (auto simp: lex_end [OF p True] print_line_def Let_def dest: parse_step_Next_type
          split: step_result.splits)
  next
    case False
    then have l: "lex input = (tt, tok) # lex rest" by (intro lex_step [OF p]) simp_all
    with "1.prems" obtain st1 where
      st1: "parse_step (print_line (token_line tt tok) st) tt tok = Next st1"
      "run_tokens st1 (lex rest) = Inr (True, st')"
      using False by (auto simp: Let_def dest: parse_step_Return_eof split: step_result.splits)
    from "1.IH" [OF p [symmetric] refl refl _ st1(2)] False parse_step_keeps_printed [OF st1(1)] show ?thesis
      by (simp add: l print_line_def)
  qed
qed

section \<open>Words and quoted strings\<close>

definition plain_token :: "string \<Rightarrow> bool" where
  "plain_token t \<longleftrightarrow>
     t \<noteq> [] \<and> word_start (hd t) \<and> list_all (\<lambda>c. \<not> word_stop c \<and> \<not> quote c) (tl t)"

definition quoted_token :: "char \<Rightarrow> string \<Rightarrow> bool" where
  "quoted_token q t \<longleftrightarrow>
     2 \<le> length t \<and> hd t = q \<and> last t = q \<and> q \<notin> set (butlast (tl t))"

definition wf_token :: "string \<Rightarrow> bool" where
  "wf_token t \<longleftrightarrow> plain_token t \<or> quoted_token SQUOTE t \<or> quoted_token DQUOTE t"

lemma quoted_tokenE:
  assumes "quoted_token q t"
  obtains b where "t = q # b @ [q]" "q \<notin> set b"
proof -
  from assms obtain u where t: "t = q # u" and u: "u \<noteq> []"
    by (cases t; cases "tl t") (auto simp: quoted_token_def)
  with assms have "t = q # butlast u @ [q]" and "q \<notin> set (butlast u)"
    by (auto simp: quoted_token_def)
  then show ?thesis by (rule that)
qed

lemma quoted_tokenI: "q \<notin> set b \<Longrightarrow> quoted_token q (q # b @ [q])"
  by (simp add: quoted_token_def)

lemma parse_normal_run:
  "list_all (\<lambda>c. \<not> word_stop c \<and> \<not> quote c) cs \<Longrightarrow>
   parse_token TOKEN_STATE_TOKEN_TYPE_NORMAL v (cs @ r) =
     parse_token TOKEN_STATE_TOKEN_TYPE_NORMAL (v @ cs) r"
  by (induction cs arbitrary: v) simp_all

lemma parse_single_run:
  "SQUOTE \<notin> set b \<Longrightarrow>
   parse_token TOKEN_STATE_SINGLE_QUOTE v (b @ SQUOTE # r) = (TOKEN_TYPE_NORMAL, v @ b @ [SQUOTE], r)"
  by (induction b arbitrary: v) auto

lemma parse_double_run:
  "DQUOTE \<notin> set b \<Longrightarrow>
   parse_token TOKEN_STATE_DOUBLE_QUOTE v (b @ DQUOTE # r) = (TOKEN_TYPE_NORMAL, v @ b @ [DQUOTE], r)"
  by (induction b arbitrary: v) auto

lemma parse_initial_blanks:
  "list_all blank ws \<Longrightarrow>
   parse_token TOKEN_STATE_INITIAL_WHITESPACE v (ws @ r) =
     parse_token TOKEN_STATE_INITIAL_WHITESPACE v r"
  by (induction ws) simp_all

lemma plain_tokenE:
  assumes "plain_token t"
  obtains c cs where "t = c # cs" "word_start c" "list_all (\<lambda>c. \<not> word_stop c \<and> \<not> quote c) cs"
  using assms by (cases t) (auto simp: plain_token_def)

lemma parse_plain_token:
  "plain_token t \<Longrightarrow> word_stop d \<Longrightarrow>
   parse_token TOKEN_STATE_INITIAL_WHITESPACE [] (t @ d # r) = (TOKEN_TYPE_NORMAL, t, d # r)"
  by (elim plain_tokenE) (simp add: parse_normal_run)

lemma parse_plain_token_eof:
  "plain_token t \<Longrightarrow>
   parse_token TOKEN_STATE_INITIAL_WHITESPACE [] t = (TOKEN_TYPE_EOF, t, [])"
  by (elim plain_tokenE) (use parse_normal_run [where r = "[]"] in simp)

lemma parse_wf_token:
  assumes "wf_token t" "word_stop d"
  shows "parse_token TOKEN_STATE_INITIAL_WHITESPACE [] (t @ d # r) = (TOKEN_TYPE_NORMAL, t, d # r)"
  using assms(1) unfolding wf_token_def
proof (elim disjE)
  assume "plain_token t"
  then show ?thesis using assms(2) by (rule parse_plain_token)
qed (auto elim!: quoted_tokenE simp: parse_single_run parse_double_run)

section \<open>Every NORMAL token is a word or a quoted string\<close>

lemma parse_single_token:
  "parse_token TOKEN_STATE_SINGLE_QUOTE v i = (TOKEN_TYPE_NORMAL, t, r) \<Longrightarrow>
   \<exists>b. t = v @ b @ [SQUOTE] \<and> SQUOTE \<notin> set b"
proof (induction i arbitrary: v)
  case (Cons c i)
  show ?case
  proof (cases "c = SQUOTE")
    case True
    with Cons.prems show ?thesis by (intro exI [of _ "[]"]) auto
  next
    case False
    with Cons.prems Cons.IH [of "v @ [c]"] obtain b where
      "t = v @ (c # b) @ [SQUOTE]" "SQUOTE \<notin> set (c # b)" by auto
    then show ?thesis by blast
  qed
qed simp

lemma parse_double_token:
  "parse_token TOKEN_STATE_DOUBLE_QUOTE v i = (TOKEN_TYPE_NORMAL, t, r) \<Longrightarrow>
   \<exists>b. t = v @ b @ [DQUOTE] \<and> DQUOTE \<notin> set b"
proof (induction i arbitrary: v)
  case (Cons c i)
  show ?case
  proof (cases "c = DQUOTE")
    case True
    with Cons.prems show ?thesis by (intro exI [of _ "[]"]) auto
  next
    case False
    with Cons.prems Cons.IH [of "v @ [c]"] obtain b where
      "t = v @ (c # b) @ [DQUOTE]" "DQUOTE \<notin> set (c # b)" by auto
    then show ?thesis by blast
  qed
qed simp

lemma parse_word_token:
  "parse_token TOKEN_STATE_TOKEN_TYPE_NORMAL v i = (TOKEN_TYPE_NORMAL, t, r) \<Longrightarrow>
   \<exists>cs. t = v @ cs \<and> list_all (\<lambda>c. \<not> word_stop c \<and> \<not> quote c) cs"
proof (induction i arbitrary: v)
  case (Cons c i)
  show ?case
  proof (cases "word_stop c \<or> quote c")
    case True
    with Cons.prems show ?thesis by (cases "word_stop c") auto
  next
    case False
    with Cons.prems Cons.IH [of "v @ [c]"] obtain cs where
      "t = v @ c # cs" "list_all (\<lambda>c. \<not> word_stop c \<and> \<not> quote c) (c # cs)" by auto
    then show ?thesis by blast
  qed
qed simp

lemma parse_comment_type:
  "fst (parse_token TOKEN_STATE_TOKEN_TYPE_COMMENT v i) \<noteq> TOKEN_TYPE_NORMAL"
proof (induction i arbitrary: v)
  case (Cons c i)
  then show ?case by (cases "line_end c") simp_all
qed simp

lemma parse_token_wf:
  "parse_token TOKEN_STATE_INITIAL_WHITESPACE [] i = (TOKEN_TYPE_NORMAL, t, r) \<Longrightarrow> wf_token t"
proof (induction i)
  case (Cons c i)
  show ?case
  proof (cases c rule: initial_cases)
    case 3
    with Cons.prems show ?thesis using parse_comment_type [of "''#''" i] by simp
  next
    case 4
    with Cons.prems obtain b where "t = [DQUOTE] @ b @ [DQUOTE]" "DQUOTE \<notin> set b"
      using parse_double_token by fastforce
    then show ?thesis by (simp add: wf_token_def quoted_tokenI)
  next
    case 5
    with Cons.prems obtain b where "t = [SQUOTE] @ b @ [SQUOTE]" "SQUOTE \<notin> set b"
      using parse_single_token by fastforce
    then show ?thesis by (simp add: wf_token_def quoted_tokenI)
  next
    case 8
    with Cons.prems obtain cs where
      "t = [c] @ cs" "list_all (\<lambda>c. \<not> word_stop c \<and> \<not> quote c) cs"
      using parse_word_token by fastforce
    with 8 show ?thesis by (simp add: wf_token_def plain_token_def)
  qed (use Cons in auto)
qed simp

text \<open>What else the lexer returns: the punctuation tokens carry their own character.\<close>

lemma parse_quote_type:
  "fst (parse_token TOKEN_STATE_SINGLE_QUOTE v i) \<in> {TOKEN_TYPE_NORMAL, TOKEN_TYPE_ERROR}"
  "fst (parse_token TOKEN_STATE_DOUBLE_QUOTE v i) \<in> {TOKEN_TYPE_NORMAL, TOKEN_TYPE_ERROR}"
  by (induction i arbitrary: v) auto

lemma parse_comment_type_in:
  "fst (parse_token TOKEN_STATE_TOKEN_TYPE_COMMENT v i) \<in> {TOKEN_TYPE_COMMENT, TOKEN_TYPE_EOF}"
proof (induction i arbitrary: v)
  case (Cons c i)
  then show ?case by (cases "line_end c") simp_all
qed simp

lemma parse_word_type_in:
  "fst (parse_token TOKEN_STATE_TOKEN_TYPE_NORMAL v i) \<in>
     {TOKEN_TYPE_NORMAL, TOKEN_TYPE_EOF, TOKEN_TYPE_ERROR}"
proof (induction i arbitrary: v)
  case (Cons c i)
  then show ?case by (cases "word_stop c"; cases "quote c") simp_all
qed simp

fun wf_lexeme :: "token_type \<times> string \<Rightarrow> bool" where
  "wf_lexeme (TOKEN_TYPE_NORMAL, t) = wf_token t"
| "wf_lexeme (TOKEN_TYPE_START_BLOCK, t) = (t = ''{'')"
| "wf_lexeme (TOKEN_TYPE_END_BLOCK, t) = (t = ''}'')"
| "wf_lexeme (TOKEN_TYPE_STATEMENT_END, t) = (t = '';'')"
| "wf_lexeme (TOKEN_TYPE_START, t) = False"
| "wf_lexeme (_, t) = True"

lemma parse_token_wf_lexeme:
  assumes "parse_token TOKEN_STATE_INITIAL_WHITESPACE [] i = (tt, t, r)"
  shows "wf_lexeme (tt, t)"
  using assms
proof (induction i)
  case (Cons c i)
  show ?case
  proof (cases c rule: initial_cases)
    case 3
    with Cons.prems show ?thesis using parse_comment_type_in [of "''#''" i] by auto
  next
    case 4
    with Cons.prems show ?thesis
      using parse_quote_type(2) [of "[DQUOTE]" i] parse_token_wf [of "c # i"] by auto
  next
    case 5
    with Cons.prems show ?thesis
      using parse_quote_type(1) [of "[SQUOTE]" i] parse_token_wf [of "c # i"] by auto
  next
    case 8
    with Cons.prems show ?thesis
      using parse_word_type_in [of "[c]" i] parse_token_wf [of "c # i"] by auto
  qed (use Cons in auto)
qed auto

lemma lex_wf: "list_all wf_lexeme (lex input)"
proof (induction input rule: lex.induct)
  case (1 input)
  obtain tt tok rest where
    p: "parse_token TOKEN_STATE_INITIAL_WHITESPACE [] input = (tt, tok, rest)"
    by (cases "parse_token TOKEN_STATE_INITIAL_WHITESPACE [] input") auto
  with 1 show ?case
    using parse_token_wf_lexeme [OF p]
    by (cases "tt = TOKEN_TYPE_EOF \<or> tt = TOKEN_TYPE_ERROR") (auto simp: lex_end lex_step)
qed

text \<open>The sequence ends with its only end of file or error.\<close>

definition ends_input :: "token_type \<Rightarrow> bool" where
  "ends_input tt \<longleftrightarrow> tt = TOKEN_TYPE_EOF \<or> tt = TOKEN_TYPE_ERROR"

lemma lex_shape:
  "\<exists>ts tt tok. lex input = ts @ [(tt, tok)] \<and> ends_input tt \<and> list_all (\<lambda>x. \<not> ends_input (fst x)) ts"
proof (induction input rule: lex.induct)
  case (1 input)
  obtain tt tok rest where
    p: "parse_token TOKEN_STATE_INITIAL_WHITESPACE [] input = (tt, tok, rest)"
    by (cases "parse_token TOKEN_STATE_INITIAL_WHITESPACE [] input") auto
  show ?case
  proof (cases "ends_input tt")
    case True
    then have "lex input = [] @ [(tt, tok)]"
      using lex_end [OF p] by (simp add: ends_input_def)
    with True show ?thesis by fastforce
  next
    case False
    then have l: "lex input = (tt, tok) # lex rest"
      using lex_step [OF p] by (simp add: ends_input_def)
    from False "1.IH" [OF p [symmetric] refl] obtain ts tt' tok' where
      "lex rest = ts @ [(tt', tok')]" "ends_input tt'" "list_all (\<lambda>x. \<not> ends_input (fst x)) ts"
      by (auto simp: ends_input_def)
    with l False show ?thesis
      by (intro exI [of _ "(tt, tok) # ts"]) auto
  qed
qed

end
