(* ===== verification/Config_Tree.thy ===== *)
theory Config_Tree
  imports Config_Lexing
begin

text \<open>
  The tree under construction, seen through the pointer on top of \<open>config_stack\<close>. \<open>top_config\<close>
  and \<open>put_top\<close> read and replace the \<open>NginxConfig\<close> that the pointer denotes; \<open>stack_ok\<close> says that
  every pointer of the stack is live. They obey the laws of a slot, which is all that the proofs
  about the parser use.
\<close>

section \<open>Slots of a structure\<close>

locale slot =
  fixes get :: "'s \<Rightarrow> 'a" and put :: "'a \<Rightarrow> 's \<Rightarrow> 's" and ok :: "'s \<Rightarrow> bool"
  assumes ok_put: "ok s \<Longrightarrow> ok (put x s)"
    and get_put: "ok s \<Longrightarrow> get (put x s) = x"
    and put_get: "ok s \<Longrightarrow> put (get s) s = s"
    and put_put: "ok s \<Longrightarrow> put y (put x s) = put y s"
begin

lemma put_eqI: "ok s \<Longrightarrow> x = get s \<Longrightarrow> put x s = s"
  by (simp add: put_get)

lemma update_update:
  "ok s \<Longrightarrow> put (g (get (put (f (get s)) s))) (put (f (get s)) s) = put (g (f (get s))) s"
  by (simp add: get_put put_put)

lemma put_inject: "ok s \<Longrightarrow> put x s = put y s \<longleftrightarrow> x = y"
  by (metis get_put)

end

section \<open>The slot on top of the stack\<close>

fun stack_ok :: "nat \<Rightarrow> nginx_config \<Rightarrow> bool" where
  "stack_ok 0 c = True"
| "stack_ok (Suc n) (NginxConfig ss) =
     (ss \<noteq> [] \<and> (case child_block (last ss) of None \<Rightarrow> False | Some c \<Rightarrow> stack_ok n c))"

fun top_config :: "nat \<Rightarrow> nginx_config \<Rightarrow> nginx_config" where
  "top_config 0 c = c"
| "top_config (Suc n) (NginxConfig ss) =
     (case child_block (last ss) of None \<Rightarrow> NginxConfig [] | Some c \<Rightarrow> top_config n c)"

fun put_top :: "nat \<Rightarrow> nginx_config \<Rightarrow> nginx_config \<Rightarrow> nginx_config" where
  "put_top 0 x c = x"
| "put_top (Suc n) x (NginxConfig ss) =
     (case child_block (last ss) of
        None \<Rightarrow> NginxConfig ss
      | Some c \<Rightarrow> NginxConfig (butlast ss @ [NginxConfigStatement (tokens (last ss)) (Some (put_top n x c))]))"

lemma stack_ok_put_top: "stack_ok n c \<Longrightarrow> stack_ok n (put_top n x c)"
  by (induction n c rule: stack_ok.induct) (auto split: option.splits)

lemma top_put_top: "stack_ok n c \<Longrightarrow> top_config n (put_top n x c) = x"
  by (induction n c rule: stack_ok.induct) (auto split: option.splits)

lemma put_top_put_top: "stack_ok n c \<Longrightarrow> put_top n y (put_top n x c) = put_top n y c"
  by (induction n c rule: stack_ok.induct) (auto split: option.splits)

lemma rebuild_last:
  assumes "ss \<noteq> []" "child_block (last ss) = d"
  shows "butlast ss @ [NginxConfigStatement (tokens (last ss)) d] = ss"
proof -
  have "NginxConfigStatement (tokens (last ss)) d = last ss"
    using assms(2) by (cases "last ss") auto
  with assms(1) show ?thesis by simp
qed

lemma put_top_top: "stack_ok n c \<Longrightarrow> put_top n (top_config n c) c = c"
  by (induction n c rule: stack_ok.induct) (auto simp: rebuild_last split: option.splits)

interpretation top: slot "top_config n" "put_top n" "stack_ok n" for n
  by unfold_locales
    (simp_all add: stack_ok_put_top top_put_top put_top_top put_top_put_top)

lemmas slot_simps = top.ok_put top.get_put top.put_put top.put_get

text \<open>An update at the top of a live stack reads the slot and puts the new value into it.\<close>

lemma at_top_slot:
  "stack_ok n c \<Longrightarrow> at_top n f c = andThen (f (top_config n c)) (\<lambda>x. Inr (put_top n x c))"
proof (induction n c rule: stack_ok.induct)
  case (1 c)
  then show ?case by (cases "f c") simp_all
next
  case (2 n ss)
  then obtain c where c: "ss \<noteq> []" "child_block (last ss) = Some c" "stack_ok n c"
    by (auto split: option.splits)
  with "2.IH" show ?case by (cases "f (top_config n c)") auto
qed

text \<open>Pushing a child block on the stack, and the slot one level further down.\<close>

definition open_last :: "nginx_config \<Rightarrow> nginx_config option" where
  "open_last c = (if statements c = [] then None else child_block (last (statements c)))"

definition put_last_child :: "nginx_config \<Rightarrow> nginx_config \<Rightarrow> nginx_config" where
  "put_last_child x c =
     NginxConfig (butlast (statements c) @ [NginxConfigStatement (tokens (last (statements c))) (Some x)])"

lemma stack_ok_Suc: "stack_ok (Suc n) c \<longleftrightarrow> stack_ok n c \<and> open_last (top_config n c) \<noteq> None"
proof (induction n arbitrary: c)
  case 0
  then show ?case by (cases c) (auto simp: open_last_def split: option.splits)
next
  case (Suc n)
  show ?case
  proof (cases c)
    case (NginxConfig ss)
    show ?thesis
    proof (cases "ss = [] \<or> child_block (last ss) = None")
      case False
      then obtain d where "ss \<noteq> []" "child_block (last ss) = Some d" by auto
      with NginxConfig Suc.IH [of d] show ?thesis by simp
    qed (use NginxConfig in auto)
  qed
qed

lemma top_config_Suc:
  "stack_ok (Suc n) c \<Longrightarrow> open_last (top_config n c) = Some (top_config (Suc n) c)"
proof (induction n arbitrary: c)
  case 0
  then show ?case by (cases c) (auto simp: open_last_def split: option.splits)
next
  case (Suc n)
  then show ?case by (cases c) (auto split: option.splits)
qed

lemma put_top_Suc:
  "stack_ok (Suc n) c \<Longrightarrow> put_top (Suc n) x c = put_top n (put_last_child x (top_config n c)) c"
proof (induction n arbitrary: c)
  case 0
  then show ?case by (cases c) (auto simp: put_last_child_def split: option.splits)
next
  case (Suc n)
  then show ?case by (cases c) (auto split: option.splits)
qed

section \<open>Well-formed trees\<close>

text \<open>What the parser can produce: every statement has a token, every token is one lexeme.\<close>

fun wf_config :: "nginx_config \<Rightarrow> bool" and wf_statement :: "nginx_statement \<Rightarrow> bool" where
  "wf_config (NginxConfig ss) = (\<forall>s \<in> set ss. wf_statement s)"
| "wf_statement (NginxConfigStatement ts child) =
     (ts \<noteq> [] \<and> (\<forall>t \<in> set ts. wf_token t) \<and> (case child of None \<Rightarrow> True | Some c \<Rightarrow> wf_config c))"

section \<open>The lexemes of a tree\<close>

fun config_lexemes :: "nginx_config \<Rightarrow> (token_type \<times> string) list"
  and statement_lexemes :: "nginx_statement \<Rightarrow> (token_type \<times> string) list" where
  "config_lexemes (NginxConfig ss) = concat (map statement_lexemes ss)"
| "statement_lexemes (NginxConfigStatement ts child) =
     map (Pair TOKEN_TYPE_NORMAL) ts @
     (case child of
        None \<Rightarrow> [(TOKEN_TYPE_STATEMENT_END, '';'')]
      | Some c \<Rightarrow>
          (TOKEN_TYPE_START_BLOCK, ''{'') # config_lexemes c @ [(TOKEN_TYPE_END_BLOCK, ''}'')])"

end
