(* ===== verification/Config_Roundtrip.thy ===== *)
theory Config_Roundtrip
  imports Config_Tree
begin

text \<open>
  Serialising a well-formed tree and parsing the text gives the tree back. The proof goes through
  the lexemes: the lexer reads \<open>config_lexemes c\<close> from \<open>ToString\<close>'s text
  (\<open>lex_config_to_string\<close>), and the token loop rebuilds the tree from them
  (\<open>run_config_lexemes\<close>).
\<close>

section \<open>Lexing the serialised tree\<close>

lemma lex_blanks: "list_all blank ws \<Longrightarrow> lex (ws @ r) = lex r"
  by (simp add: lex.simps [of "ws @ r"] lex.simps [of r] parse_initial_blanks)

lemma lex_blank [simp]: "blank c \<Longrightarrow> lex (c # r) = lex r"
  using lex_blanks [of "[c]" r] by simp

lemma blank_chars [simp]: "blank SP" "blank LF" "blank TAB" "blank CR"
  by (simp_all add: blank_def)

lemma word_stop_chars [simp]:
  "word_stop SP" "word_stop LF" "word_stop (CHR '';'')" "word_stop (CHR ''{'')" "word_stop (CHR ''}'')"
  by (simp_all add: word_stop_def)

lemma lex_punctuation [simp]:
  "lex (CHR ''{'' # r) = (TOKEN_TYPE_START_BLOCK, ''{'') # lex r"
  "lex (CHR ''}'' # r) = (TOKEN_TYPE_END_BLOCK, ''}'') # lex r"
  "lex (CHR '';'' # r) = (TOKEN_TYPE_STATEMENT_END, '';'') # lex r"
  by (rule lex_step; simp)+

lemma lex_Nil [simp]: "lex [] = [(TOKEN_TYPE_EOF, [])]"
  by (rule lex_end [where rest = "[]"]) simp_all

lemma lex_wf_token:
  "wf_token t \<Longrightarrow> word_stop d \<Longrightarrow> lex (t @ d # r) = (TOKEN_TYPE_NORMAL, t) # lex (d # r)"
  by (rule lex_step) (simp_all add: parse_wf_token)

lemma lex_indentation [simp]: "lex (indentation d @ r) = lex r"
  by (induction d) (simp_all add: indentation_def)

lemma lex_append_tokens:
  "\<forall>t \<in> set ts. wf_token t \<Longrightarrow> word_stop d \<Longrightarrow>
   lex (append_tokens i ts @ d # r) = map (Pair TOKEN_TYPE_NORMAL) ts @ lex (d # r)"
proof (induction i ts rule: append_tokens.induct)
  case (2 i t ts)
  have stop: "\<exists>e u. append_tokens (Suc i) ts @ d # r = e # u \<and> word_stop e"
    using "2.prems"(2) by (cases ts) auto
  then obtain e u where "append_tokens (Suc i) ts @ d # r = e # u" "word_stop e" by blast
  with 2 show ?case by (simp add: lex_wf_token)
qed simp

lemma lex_config_statement:
  "wf_config c \<Longrightarrow> lex (config_to_string depth c @ r) = config_lexemes c @ lex r"
  "wf_statement s \<Longrightarrow> lex (statement_to_string depth s @ r) = statement_lexemes s @ lex r"
proof (induction depth c and depth s arbitrary: r and r
    rule: config_to_string_statement_to_string.induct)
  case (1 depth ss)
  have "\<forall>s \<in> set ss. wf_statement s \<Longrightarrow> set ss \<subseteq> set ss' \<Longrightarrow>
      (\<And>s r. s \<in> set ss' \<Longrightarrow> wf_statement s \<Longrightarrow>
        lex (statement_to_string depth s @ r) = statement_lexemes s @ lex r) \<Longrightarrow>
      lex (concat (map (statement_to_string depth) ss) @ r) =
        concat (map statement_lexemes ss) @ lex r" for ss'
    by (induction ss) simp_all
  from this [of ss] 1 show ?case by simp
next
  case (2 depth ts child)
  show ?case
  proof (cases child)
    case None
    with 2 show ?thesis by (simp add: lex_append_tokens)
  next
    case (Some c)
    with 2 show ?thesis by (simp add: lex_append_tokens)
  qed
qed

lemmas lex_config_to_string = lex_config_statement(1)

section \<open>Running the token loop on the lexemes of a tree\<close>

abbreviation pstate :: "nginx_config \<Rightarrow> nat \<Rightarrow> int \<Rightarrow> token_type \<Rightarrow> string list \<Rightarrow> parser_state" where
  "pstate root n ob l p \<equiv>
     \<lparr>out_config = root, config_stack = n, open_block = ob, last_token_type = l, printed = p\<rparr>"

text \<open>The tokens after which a new statement or the end of a block may follow.\<close>

definition boundary :: "token_type \<Rightarrow> bool" where
  "boundary l \<longleftrightarrow> l \<in> {TOKEN_TYPE_START, TOKEN_TYPE_STATEMENT_END, TOKEN_TYPE_START_BLOCK, TOKEN_TYPE_END_BLOCK}"

definition add_statements :: "nginx_statement list \<Rightarrow> nginx_config \<Rightarrow> nginx_config" where
  "add_statements ss c = NginxConfig (statements c @ ss)"

lemma add_statements_simps [simp]:
  "add_statements [] c = c"
  "add_statements ss (add_statements ss' c) = add_statements (ss' @ ss) c"
  "statements (add_statements ss c) = statements c @ ss"
  by (cases c; simp add: add_statements_def)+

lemma add_statement_eq: "add_statement c = Inr (add_statements [NginxConfigStatement [] None] c)"
  by (cases c) (simp add: add_statements_def)

lemma push_token_eq:
  "push_token t (add_statements [NginxConfigStatement ts d] c) =
     Inr (add_statements [NginxConfigStatement (ts @ [t]) d] c)"
  by (simp add: add_statements_def)

lemma open_child_eq:
  "open_child (add_statements [NginxConfigStatement ts d] c) =
     Inr (add_statements [NginxConfigStatement ts (Some (NginxConfig []))] c)"
  by (simp add: add_statements_def)

lemma run_first_word:
  assumes "stack_ok n root" "boundary l"
  shows "\<exists>p'. run_tokens (pstate root n ob l p) ((TOKEN_TYPE_NORMAL, t) # ts) =
     run_tokens (pstate (put_top n
       (add_statements [NginxConfigStatement [t] None] (top_config n root)) root)
       n ob TOKEN_TYPE_NORMAL p') ts"
proof -
  have "l \<noteq> TOKEN_TYPE_NORMAL" using assms(2) by (auto simp: boundary_def)
  with assms show ?thesis
    by (auto simp: boundary_def print_line_def at_top_slot add_statement_eq push_token_eq slot_simps)
qed

lemma run_words:
  assumes "stack_ok n root" "top_config n root = add_statements [NginxConfigStatement us None] c"
  shows "\<exists>p'. run_tokens (pstate root n ob TOKEN_TYPE_NORMAL p)
       (map (Pair TOKEN_TYPE_NORMAL) ws @ ts) =
     run_tokens (pstate (put_top n (add_statements [NginxConfigStatement (us @ ws) None] c) root)
       n ob TOKEN_TYPE_NORMAL p') ts"
  using assms
proof (induction ws arbitrary: root us p)
  case Nil
  then show ?case by (metis append_Nil append_Nil2 list.simps(8) put_top_top)
next
  case (Cons w ws)
  let ?root = "put_top n (add_statements [NginxConfigStatement (us @ [w]) None] c) root"
  have step: "\<exists>p'. run_tokens (pstate root n ob TOKEN_TYPE_NORMAL p)
       ((TOKEN_TYPE_NORMAL, w) # map (Pair TOKEN_TYPE_NORMAL) ws @ ts) =
     run_tokens (pstate ?root n ob TOKEN_TYPE_NORMAL p') (map (Pair TOKEN_TYPE_NORMAL) ws @ ts)"
    using Cons.prems by (auto simp: print_line_def at_top_slot push_token_eq)
  have "stack_ok n ?root" "top_config n ?root = add_statements [NginxConfigStatement (us @ [w]) None] c"
    using Cons.prems by (simp_all add: slot_simps)
  from Cons.IH [OF this] step Cons.prems(1) show ?case
    by (fastforce simp: slot_simps)
qed

lemma run_statement_words:
  assumes "stack_ok n root" "boundary l" "ws \<noteq> []"
  shows "\<exists>p'. run_tokens (pstate root n ob l p) (map (Pair TOKEN_TYPE_NORMAL) ws @ ts) =
     run_tokens (pstate (put_top n
       (add_statements [NginxConfigStatement ws None] (top_config n root)) root)
       n ob TOKEN_TYPE_NORMAL p') ts"
proof -
  obtain w ws' where ws: "ws = w # ws'" using assms(3) by (cases ws) auto
  let ?root = "put_top n (add_statements [NginxConfigStatement [w] None] (top_config n root)) root"
  have ok: "stack_ok n ?root"
    and tp: "top_config n ?root = add_statements [NginxConfigStatement [w] None] (top_config n root)"
    using assms(1) by (simp_all add: slot_simps)
  obtain p1 where 1: "run_tokens (pstate root n ob l p)
      ((TOKEN_TYPE_NORMAL, w) # map (Pair TOKEN_TYPE_NORMAL) ws' @ ts) =
    run_tokens (pstate ?root n ob TOKEN_TYPE_NORMAL p1) (map (Pair TOKEN_TYPE_NORMAL) ws' @ ts)"
    using run_first_word [OF assms(1,2)] by blast
  from run_words [OF ok tp] 1 assms(1) ws show ?thesis
    by (fastforce simp: slot_simps)
qed

text \<open>What the last token read is after the lexemes of some statements.\<close>

fun closing :: "nginx_statement \<Rightarrow> token_type" where
  "closing (NginxConfigStatement ts None) = TOKEN_TYPE_STATEMENT_END"
| "closing (NginxConfigStatement ts (Some c)) = TOKEN_TYPE_END_BLOCK"

definition closing_all :: "token_type \<Rightarrow> nginx_statement list \<Rightarrow> token_type" where
  "closing_all l ss = (if ss = [] then l else closing (last ss))"

lemma closing_cases: "closing s = TOKEN_TYPE_STATEMENT_END \<or> closing s = TOKEN_TYPE_END_BLOCK"
  by (cases s rule: closing.cases) simp_all

lemma boundary_closing [simp]: "boundary (closing s)"
  using closing_cases [of s] by (auto simp: boundary_def)

lemma boundary_closing_all: "boundary l \<Longrightarrow> boundary (closing_all l ss)"
  by (simp add: closing_all_def)

lemma run_block_end:
  assumes "l = TOKEN_TYPE_START_BLOCK \<or> l = TOKEN_TYPE_STATEMENT_END \<or> l = TOKEN_TYPE_END_BLOCK"
    and "1 \<le> ob"
  shows "\<exists>p'. run_tokens (pstate root (Suc n) ob l p) ((TOKEN_TYPE_END_BLOCK, t) # ts) =
     run_tokens (pstate root n (ob - 1) TOKEN_TYPE_END_BLOCK p') ts"
  using assms by (auto simp: print_line_def)

lemma run_block_start:
  assumes "stack_ok n root" "top_config n root = add_statements [NginxConfigStatement ws None] c"
  shows "\<exists>p'. run_tokens (pstate root n ob TOKEN_TYPE_NORMAL p) ((TOKEN_TYPE_START_BLOCK, t) # ts) =
     run_tokens (pstate (put_top n
       (add_statements [NginxConfigStatement ws (Some (NginxConfig []))] c) root)
       (Suc n) (ob + 1) TOKEN_TYPE_START_BLOCK p') ts"
  using assms by (auto simp: print_line_def at_top_slot open_child_eq)

lemma put_last_child_add:
  "put_last_child x (add_statements [NginxConfigStatement ws d] c) =
     add_statements [NginxConfigStatement ws (Some x)] c"
  by (simp add: put_last_child_def add_statements_def)

lemma open_last_add:
  "open_last (add_statements [NginxConfigStatement ws d] c) = d"
  by (simp add: open_last_def add_statements_def)

lemma stack_ok_open_block:
  assumes "stack_ok n root"
  shows "stack_ok (Suc n) (put_top n (add_statements [NginxConfigStatement ws (Some d)] c) root)"
    and "top_config (Suc n) (put_top n (add_statements [NginxConfigStatement ws (Some d)] c) root) = d"
    and "put_top (Suc n) x (put_top n (add_statements [NginxConfigStatement ws (Some d)] c) root) =
      put_top n (add_statements [NginxConfigStatement ws (Some x)] c) root"
proof -
  let ?r = "put_top n (add_statements [NginxConfigStatement ws (Some d)] c) root"
  show ok: "stack_ok (Suc n) ?r"
    using assms by (simp only: stack_ok_Suc) (simp add: slot_simps open_last_add)
  from top_config_Suc [OF ok] assms show "top_config (Suc n) ?r = d"
    by (simp only: slot_simps open_last_add) simp
  from put_top_Suc [OF ok] assms
  show "put_top (Suc n) x ?r = put_top n (add_statements [NginxConfigStatement ws (Some x)] c) root"
    by (simp only: slot_simps put_last_child_add)
qed

lemma run_block:
  assumes ok: "stack_ok n root" and l: "boundary l" and ob: "0 \<le> ob" and ws: "ws \<noteq> []"
    and body: "\<And>root p ts. stack_ok (Suc n) root \<Longrightarrow>
      \<exists>p'. run_tokens (pstate root (Suc n) (ob + 1) TOKEN_TYPE_START_BLOCK p) (config_lexemes c @ ts) =
        run_tokens (pstate (put_top (Suc n) (add_statements (statements c) (top_config (Suc n) root)) root)
          (Suc n) (ob + 1) (closing_all TOKEN_TYPE_START_BLOCK (statements c)) p') ts"
  shows "\<exists>p'. run_tokens (pstate root n ob l p)
       (statement_lexemes (NginxConfigStatement ws (Some c)) @ ts) =
     run_tokens (pstate (put_top n
       (add_statements [NginxConfigStatement ws (Some c)] (top_config n root)) root)
       n ob TOKEN_TYPE_END_BLOCK p') ts"
proof -
  let ?T = "top_config n root"
  let ?node = "\<lambda>d. put_top n (add_statements [NginxConfigStatement ws d] ?T) root"
  let ?r2 = "?node (Some (NginxConfig []))"
  let ?close = "(TOKEN_TYPE_END_BLOCK, ''}'') # ts"
  let ?l = "closing_all TOKEN_TYPE_START_BLOCK (statements c)"
  obtain p1 where 1: "run_tokens (pstate root n ob l p)
      (statement_lexemes (NginxConfigStatement ws (Some c)) @ ts) =
    run_tokens (pstate (?node None) n ob TOKEN_TYPE_NORMAL p1)
      ((TOKEN_TYPE_START_BLOCK, ''{'') # config_lexemes c @ ?close)"
    using run_statement_words [OF ok l ws, of ob p "(TOKEN_TYPE_START_BLOCK, ''{'') # config_lexemes c @ ?close"]
    by auto
  obtain p2 where 2: "run_tokens (pstate (?node None) n ob TOKEN_TYPE_NORMAL p1)
      ((TOKEN_TYPE_START_BLOCK, ''{'') # config_lexemes c @ ?close) =
    run_tokens (pstate ?r2 (Suc n) (ob + 1) TOKEN_TYPE_START_BLOCK p2) (config_lexemes c @ ?close)"
    using run_block_start [of n "?node None" ws ?T] ok by (fastforce simp: slot_simps)
  have "add_statements (statements c) (NginxConfig []) = c"
    by (cases c) (simp add: add_statements_def)
  then obtain p3 where 3: "run_tokens (pstate ?r2 (Suc n) (ob + 1) TOKEN_TYPE_START_BLOCK p2)
      (config_lexemes c @ ?close) =
    run_tokens (pstate (?node (Some c)) (Suc n) (ob + 1) ?l p3) ?close"
    using body [OF stack_ok_open_block(1) [OF ok, of ws "NginxConfig []" ?T], of p2 ?close]
    by (auto simp: stack_ok_open_block(2,3) [OF ok])
  have "?l = TOKEN_TYPE_START_BLOCK \<or> ?l = TOKEN_TYPE_STATEMENT_END \<or> ?l = TOKEN_TYPE_END_BLOCK"
    using closing_cases by (auto simp: closing_all_def)
  then obtain p4 where "run_tokens (pstate (?node (Some c)) (Suc n) (ob + 1) ?l p3) ?close =
      run_tokens (pstate (?node (Some c)) n ob TOKEN_TYPE_END_BLOCK p4) ts"
    using run_block_end [of ?l "ob + 1"] ob by fastforce
  with 1 2 3 show ?thesis by auto
qed

lemma run_simple_statement:
  assumes "stack_ok n root" "boundary l" "ws \<noteq> []"
  shows "\<exists>p'. run_tokens (pstate root n ob l p)
       (statement_lexemes (NginxConfigStatement ws None) @ ts) =
     run_tokens (pstate (put_top n
       (add_statements [NginxConfigStatement ws None] (top_config n root)) root)
       n ob TOKEN_TYPE_STATEMENT_END p') ts"
  using run_statement_words [OF assms, of ob p "(TOKEN_TYPE_STATEMENT_END, '';'') # ts"]
  by (auto simp: print_line_def)

lemma run_statement_list:
  assumes "\<And>s root l p ts. s \<in> set ss \<Longrightarrow> stack_ok n root \<Longrightarrow> boundary l \<Longrightarrow>
      \<exists>p'. run_tokens (pstate root n ob l p) (statement_lexemes s @ ts) =
        run_tokens (pstate (put_top n (add_statements [s] (top_config n root)) root)
          n ob (closing s) p') ts"
    and "stack_ok n root" "boundary l"
  shows "\<exists>p'. run_tokens (pstate root n ob l p) (concat (map statement_lexemes ss) @ ts) =
     run_tokens (pstate (put_top n (add_statements ss (top_config n root)) root)
       n ob (closing_all l ss) p') ts"
  using assms
proof (induction ss arbitrary: root l p)
  case Nil
  then show ?case by (auto simp: closing_all_def slot_simps)
next
  case (Cons s ss)
  let ?root = "put_top n (add_statements [s] (top_config n root)) root"
  obtain p1 where 1: "run_tokens (pstate root n ob l p)
      (statement_lexemes s @ concat (map statement_lexemes ss) @ ts) =
    run_tokens (pstate ?root n ob (closing s) p1) (concat (map statement_lexemes ss) @ ts)"
    using Cons.prems(1) [OF _ Cons.prems(2,3)] by fastforce
  have "stack_ok n ?root" using Cons.prems(2) by (simp add: slot_simps)
  then obtain p2 where "run_tokens (pstate ?root n ob (closing s) p1)
      (concat (map statement_lexemes ss) @ ts) =
    run_tokens (pstate (put_top n (add_statements ss (top_config n ?root)) ?root)
      n ob (closing_all (closing s) ss) p2) ts"
    using Cons.IH [OF Cons.prems(1)] by fastforce
  with 1 Cons.prems(2) show ?case
    by (auto simp: closing_all_def slot_simps)
qed

lemma run_lexemes:
  "wf_config c \<Longrightarrow> stack_ok n root \<Longrightarrow> boundary l \<Longrightarrow> 0 \<le> ob \<Longrightarrow>
   \<exists>p'. run_tokens (pstate root n ob l p) (config_lexemes c @ ts) =
     run_tokens (pstate (put_top n (add_statements (statements c) (top_config n root)) root)
       n ob (closing_all l (statements c)) p') ts"
  "wf_statement s \<Longrightarrow> stack_ok n root \<Longrightarrow> boundary l \<Longrightarrow> 0 \<le> ob \<Longrightarrow>
   \<exists>p'. run_tokens (pstate root n ob l p) (statement_lexemes s @ ts) =
     run_tokens (pstate (put_top n (add_statements [s] (top_config n root)) root)
       n ob (closing s) p') ts"
proof (induction c and s arbitrary: n root l ob p ts and n root l ob p ts
    rule: config_lexemes_statement_lexemes.induct)
  case (1 ss)
  then show ?case
    using run_statement_list [of ss n ob root l p ts] by simp
next
  case (2 ws child)
  show ?case
  proof (cases child)
    case None
    with 2 show ?thesis using run_simple_statement [of n root l ws ob p ts] by simp
  next
    case (Some c)
    have "boundary TOKEN_TYPE_START_BLOCK" by (simp add: boundary_def)
    with 2 Some show ?thesis
      using run_block [of n root l ob ws c p ts] by simp
  qed
qed

lemmas run_config_lexemes = run_lexemes(1)

section \<open>The round trip\<close>

definition accepting :: "token_type \<Rightarrow> bool" where
  "accepting l \<longleftrightarrow> l = TOKEN_TYPE_STATEMENT_END \<or> l = TOKEN_TYPE_END_BLOCK \<or> l = TOKEN_TYPE_START"

lemma accepting_closing_all: "accepting (closing_all TOKEN_TYPE_START ss)"
  using closing_cases [of "last ss"] by (auto simp: accepting_def closing_all_def)

lemma run_eof:
  "accepting l \<Longrightarrow> \<exists>st. run_tokens (pstate root n ob l p) [(TOKEN_TYPE_EOF, t)] = Inr (n = 0, st) \<and>
     out_config st = root"
  by (auto simp: accepting_def print_line_def)

text \<open>The result of the loop without its state: the truth value and the tree.\<close>

fun parse_result :: "(bool \<times> parser_state) outcome \<Rightarrow> (bool \<times> nginx_config) outcome" where
  "parse_result (Inl e) = Inl e"
| "parse_result (Inr (b, st)) = Inr (b, out_config st)"

lemma parse_stream_run:
  "parse_stream input c = parse_result (run_tokens (parse_start c) (lex input))"
  unfolding parse_stream_def parse_loop_lex
  by (cases "run_tokens (parse_start c) (lex input)") auto

lemma run_tree_lexemes:
  assumes "wf_config c"
  shows "parse_result (run_tokens (parse_start (NginxConfig [])) (config_lexemes c @ [(TOKEN_TYPE_EOF, t)])) =
     Inr (True, c)"
proof -
  have b: "boundary TOKEN_TYPE_START" by (simp add: boundary_def)
  have "add_statements (statements c) (NginxConfig []) = c"
    by (cases c) (simp add: add_statements_def)
  then obtain p where "run_tokens (parse_start (NginxConfig [])) (config_lexemes c @ [(TOKEN_TYPE_EOF, t)]) =
      run_tokens (pstate c 0 0 (closing_all TOKEN_TYPE_START (statements c)) p) [(TOKEN_TYPE_EOF, t)]"
    using run_config_lexemes [OF assms(1) _ b, of 0 "NginxConfig []" 0 "[]" "[(TOKEN_TYPE_EOF, t)]"]
    by (auto simp: parse_start_def)
  with run_eof [OF accepting_closing_all, of c 0 0 "statements c" p t] show ?thesis
    by auto
qed

text \<open>A text whose lexemes are those of a well-formed tree, and then the end, parses to the tree.\<close>

lemma parse_stream_lexemes:
  "wf_config c \<Longrightarrow> lex input = config_lexemes c @ [(TOKEN_TYPE_EOF, t)] \<Longrightarrow>
   parse_stream input (NginxConfig []) = Inr (True, c)"
  by (simp add: parse_stream_run run_tree_lexemes)

text \<open>
  C2: Serialising any configuration tree the parser can represent and parsing the text again
  succeeds and returns exactly that tree: \<open>Parse\<close> inverts \<open>ToString\<close>. A tree is well formed when
  every statement has at least one token and every token is a word or a quoted string.
\<close>
theorem parse_inverts_to_string:
  assumes "wf_config c"
  shows "parse_stream (config_to_string 0 c) (NginxConfig []) = Inr (True, c)"
  using parse_stream_lexemes [OF assms] lex_config_to_string [OF assms, of 0 "[]"] by simp

text \<open>Applied to the tree of a small server block with a nested location.\<close>

theorem parse_inverts_to_string_witness:
  "parse_stream (config_to_string 0 (NginxConfig
     [NginxConfigStatement [''server''] (Some (NginxConfig
       [NginxConfigStatement [''listen'', ''80''] None]))])) (NginxConfig []) =
   Inr (True, NginxConfig
     [NginxConfigStatement [''server''] (Some (NginxConfig
       [NginxConfigStatement [''listen'', ''80''] None]))])"
  by (rule parse_inverts_to_string)
    (simp add: wf_token_def plain_token_def word_start_def word_stop_def quote_def blank_def)

end
