(* ===== verification/Config_Grammar.thy ===== *)
theory Config_Grammar
  imports Config_Roundtrip
begin

text \<open>
  What \<open>Parse\<close> accepts. Whatever the input and the tree it starts from, no \<open>back()\<close> is called on
  an empty vector and no pointer of the stack is stale (\<open>parse_stream_safe\<close>). Started on an empty
  configuration, it succeeds with a tree exactly when the tokens of the input, comments left out,
  are the lexemes of that tree (\<open>parse_stream_iff\<close>); so the printed form is a normal form of the
  input.
\<close>

section \<open>Memory safety of the loop\<close>

definition parser_safe :: "parser_state \<Rightarrow> bool" where
  "parser_safe st \<longleftrightarrow>
     stack_ok (config_stack st) (out_config st) \<and>
     open_block st = int (config_stack st) \<and>
     (last_token_type st = TOKEN_TYPE_NORMAL \<longrightarrow>
        statements (top_config (config_stack st) (out_config st)) \<noteq> [])"

lemma parser_safe_print [simp]: "parser_safe (print_line l st) = parser_safe st"
  by (simp add: parser_safe_def print_line_def)

lemma parser_safe_start: "parser_safe (parse_start c)"
  by (simp add: parser_safe_def parse_start_def)

lemma push_token_nonempty:
  "statements c \<noteq> [] \<Longrightarrow>
   push_token t c = Inr (NginxConfig (butlast (statements c) @
     [NginxConfigStatement (tokens (last (statements c)) @ [t]) (child_block (last (statements c)))]))"
  by (cases c) simp

lemma open_child_nonempty:
  "statements c \<noteq> [] \<Longrightarrow> open_child c = Inr (put_last_child (NginxConfig []) c)"
  by (cases c) (simp add: put_last_child_def)

lemma stack_ok_open_child:
  assumes "stack_ok n c"
  shows "stack_ok (Suc n) (put_top n (put_last_child x (top_config n c)) c)"
    and "top_config (Suc n) (put_top n (put_last_child x (top_config n c)) c) = x"
proof -
  let ?c = "put_top n (put_last_child x (top_config n c)) c"
  have o: "open_last (top_config n ?c) = Some x"
    using assms by (simp add: slot_simps open_last_def put_last_child_def)
  show ok: "stack_ok (Suc n) ?c"
    using assms o by (simp only: stack_ok_Suc) (simp add: slot_simps)
  from top_config_Suc [OF ok] o show "top_config (Suc n) ?c = x" by simp
qed

text \<open>What the four tokens that change the state do to a safe one.\<close>

lemma step_first_word:
  assumes "parser_safe st" "boundary (last_token_type st)"
  shows "parse_step st TOKEN_TYPE_NORMAL t =
     Next (st\<lparr>out_config := put_top (config_stack st)
         (add_statements [NginxConfigStatement [t] None] (top_config (config_stack st) (out_config st)))
         (out_config st), last_token_type := TOKEN_TYPE_NORMAL\<rparr>)"
proof -
  have "last_token_type st \<noteq> TOKEN_TYPE_NORMAL" using assms(2) by (auto simp: boundary_def)
  moreover have "stack_ok (config_stack st) (out_config st)"
    using assms(1) by (simp add: parser_safe_def)
  ultimately show ?thesis
    using assms(2)
    by (auto simp: boundary_def at_top_slot add_statement_eq push_token_eq slot_simps)
qed

lemma step_next_word:
  assumes "parser_safe st" "last_token_type st = TOKEN_TYPE_NORMAL"
  shows "\<exists>c. push_token t (top_config (config_stack st) (out_config st)) = Inr c \<and>
     parse_step st TOKEN_TYPE_NORMAL t =
       Next (st\<lparr>out_config := put_top (config_stack st) c (out_config st),
                last_token_type := TOKEN_TYPE_NORMAL\<rparr>)"
  using assms by (auto simp: parser_safe_def push_token_nonempty at_top_slot)

lemma step_open:
  assumes "parser_safe st" "last_token_type st = TOKEN_TYPE_NORMAL"
  shows "parse_step st TOKEN_TYPE_START_BLOCK t =
     Next (st\<lparr>out_config := put_top (config_stack st)
         (put_last_child (NginxConfig []) (top_config (config_stack st) (out_config st)))
         (out_config st),
       config_stack := Suc (config_stack st), open_block := open_block st + 1,
       last_token_type := TOKEN_TYPE_START_BLOCK\<rparr>)"
  using assms by (simp add: parser_safe_def open_child_nonempty at_top_slot)

lemma step_word_break:
  "\<not> boundary (last_token_type st) \<Longrightarrow> last_token_type st \<noteq> TOKEN_TYPE_NORMAL \<Longrightarrow>
   parse_step st TOKEN_TYPE_NORMAL t = Break"
  by (simp add: boundary_def)

lemma step_open_break:
  "last_token_type st \<noteq> TOKEN_TYPE_NORMAL \<Longrightarrow> parse_step st TOKEN_TYPE_START_BLOCK t = Break"
  by simp

declare parse_step.simps(4,6) [simp del]

lemma parser_safe_close:
  assumes "parser_safe st" "parse_step st TOKEN_TYPE_END_BLOCK t = Next st'"
  obtains n where "config_stack st = Suc n"
    and "st' = st\<lparr>config_stack := n, open_block := int n, last_token_type := TOKEN_TYPE_END_BLOCK\<rparr>"
    and "last_token_type st \<noteq> TOKEN_TYPE_START" "last_token_type st \<noteq> TOKEN_TYPE_NORMAL"
  using assms by (cases "config_stack st") (auto simp: parser_safe_def split: if_splits)

text \<open>The moves of a safe state, one case per kind of token that lets the loop go on.\<close>

lemma parse_step_cases [consumes 2, case_names comment first_word next_word statement_end open_block close_block]:
  assumes safe: "parser_safe st" and step: "parse_step st tt tok = Next st'"
  obtains
    "tt = TOKEN_TYPE_COMMENT" "st' = st"
  | "tt = TOKEN_TYPE_NORMAL" "boundary (last_token_type st)"
    "st' = st\<lparr>out_config := put_top (config_stack st)
         (add_statements [NginxConfigStatement [tok] None] (top_config (config_stack st) (out_config st)))
         (out_config st), last_token_type := TOKEN_TYPE_NORMAL\<rparr>"
  | c where "tt = TOKEN_TYPE_NORMAL" "last_token_type st = TOKEN_TYPE_NORMAL"
    "push_token tok (top_config (config_stack st) (out_config st)) = Inr c"
    "st' = st\<lparr>out_config := put_top (config_stack st) c (out_config st),
              last_token_type := TOKEN_TYPE_NORMAL\<rparr>"
  | "tt = TOKEN_TYPE_STATEMENT_END" "last_token_type st = TOKEN_TYPE_NORMAL"
    "st' = st\<lparr>last_token_type := TOKEN_TYPE_STATEMENT_END\<rparr>"
  | "tt = TOKEN_TYPE_START_BLOCK" "last_token_type st = TOKEN_TYPE_NORMAL"
    "st' = st\<lparr>out_config := put_top (config_stack st)
         (put_last_child (NginxConfig []) (top_config (config_stack st) (out_config st)))
         (out_config st),
       config_stack := Suc (config_stack st), open_block := open_block st + 1,
       last_token_type := TOKEN_TYPE_START_BLOCK\<rparr>"
  | n where "tt = TOKEN_TYPE_END_BLOCK" "config_stack st = Suc n"
    "st' = st\<lparr>config_stack := n, open_block := int n, last_token_type := TOKEN_TYPE_END_BLOCK\<rparr>"
    "last_token_type st \<noteq> TOKEN_TYPE_START" "last_token_type st \<noteq> TOKEN_TYPE_NORMAL"
proof (cases tt)
  case TOKEN_TYPE_NORMAL
  show ?thesis
  proof (cases "boundary (last_token_type st)")
    case True
    then show ?thesis
      using that(2) step TOKEN_TYPE_NORMAL step_first_word [OF safe True, of tok] by simp
  next
    case False
    then have "last_token_type st = TOKEN_TYPE_NORMAL"
      using step_word_break [of st tok] step TOKEN_TYPE_NORMAL by auto
    then show ?thesis
      using that(3) step TOKEN_TYPE_NORMAL step_next_word [OF safe, of tok] by auto
  qed
next
  case TOKEN_TYPE_START_BLOCK
  then have "last_token_type st = TOKEN_TYPE_NORMAL"
    using step step_open_break [of st tok] by auto
  then show ?thesis
    using that(5) step TOKEN_TYPE_START_BLOCK step_open [OF safe, of tok] by simp
next
  case TOKEN_TYPE_END_BLOCK
  from step [unfolded TOKEN_TYPE_END_BLOCK] show ?thesis
    by (rule parser_safe_close [OF safe]) (rule that(6) [OF TOKEN_TYPE_END_BLOCK])
next
  case TOKEN_TYPE_COMMENT
  then show ?thesis using that(1) step by simp
next
  case TOKEN_TYPE_STATEMENT_END
  then show ?thesis using that(4) step by (simp split: if_splits)
qed (use step in \<open>auto split: if_splits\<close>)

lemma parse_step_defined:
  assumes "parser_safe st"
  shows "parse_step st tt tok \<noteq> Undefined e"
proof (cases tt)
  case TOKEN_TYPE_NORMAL
  then show ?thesis
    using step_first_word [OF assms, of tok] step_next_word [OF assms, of tok]
      step_word_break [of st tok]
    by (cases "boundary (last_token_type st)"; cases "last_token_type st = TOKEN_TYPE_NORMAL") auto
next
  case TOKEN_TYPE_START_BLOCK
  then show ?thesis
    using step_open [OF assms, of tok] step_open_break [of st tok]
    by (cases "last_token_type st = TOKEN_TYPE_NORMAL") simp_all
qed (auto split: if_splits)

lemma push_token_statements: "push_token t c = Inr c' \<Longrightarrow> statements c' \<noteq> []"
  by (cases c) (auto split: if_splits)

lemma parse_step_safe:
  assumes safe: "parser_safe st" and step: "parse_step st tt tok = Next st'"
  shows "parser_safe st'"
  using safe step
proof (cases rule: parse_step_cases)
  case first_word
  with safe show ?thesis by (simp add: parser_safe_def slot_simps)
next
  case (next_word c)
  with safe push_token_statements [OF next_word(3)] show ?thesis
    by (simp add: parser_safe_def slot_simps)
next
  case open_block
  with safe show ?thesis
    using stack_ok_open_child(1) by (simp add: parser_safe_def)
next
  case (close_block n)
  with safe have "stack_ok n (out_config st)"
    using stack_ok_Suc by (simp add: parser_safe_def)
  with close_block show ?thesis by (simp add: parser_safe_def)
qed (use safe in \<open>simp_all add: parser_safe_def\<close>)

lemma run_tokens_safe: "parser_safe st \<Longrightarrow> run_tokens st ts \<noteq> Inl e"
proof (induction st ts rule: run_tokens.induct)
  case (2 st tt tok ts)
  let ?st = "print_line (token_line tt tok) st"
  have safe: "parser_safe ?st" using "2.prems" by simp
  show ?case
    using parse_step_defined [OF safe] parse_step_safe [OF safe] "2.IH" [OF refl]
    by (auto simp: Let_def split: step_result.split)
qed simp

lemma parse_stream_total:
  "\<exists>ok result. parse_stream input config = Inr (ok, result)"
proof -
  have "\<And>e. parse_loop (parse_start config) input \<noteq> Inl e"
    unfolding parse_loop_lex using parser_safe_start by (rule run_tokens_safe)
  then show ?thesis
    by (cases "parse_loop (parse_start config) input") (auto simp: parse_stream_def)
qed


section \<open>The lexemes a state has read\<close>

definition head_lexemes :: "nginx_config \<Rightarrow> (token_type \<times> string) list" where
  "head_lexemes c =
     concat (map statement_lexemes (butlast (statements c))) @
     map (Pair TOKEN_TYPE_NORMAL) (tokens (last (statements c)))"

text \<open>Everything that stands before the innermost open block.\<close>

fun before :: "nat \<Rightarrow> nginx_config \<Rightarrow> (token_type \<times> string) list" where
  "before 0 c = []"
| "before (Suc n) c =
     head_lexemes c @ (TOKEN_TYPE_START_BLOCK, ''{'') #
     (case open_last c of None \<Rightarrow> [] | Some d \<Rightarrow> before n d)"

lemma before_put_top: "stack_ok n c \<Longrightarrow> before n (put_top n x c) = before n c"
  by (induction n c rule: stack_ok.induct)
    (auto simp: head_lexemes_def open_last_def split: option.splits)

lemma before_Suc:
  "stack_ok (Suc n) c \<Longrightarrow>
   before (Suc n) c = before n c @ head_lexemes (top_config n c) @ [(TOKEN_TYPE_START_BLOCK, ''{'')]"
proof (induction n arbitrary: c)
  case 0
  then show ?case by (cases c) (auto simp: open_last_def split: option.splits)
next
  case (Suc n)
  then obtain ss d where c: "c = NginxConfig ss" "ss \<noteq> []" "child_block (last ss) = Some d" "stack_ok (Suc n) d"
    by (cases c) (auto split: option.splits)
  with Suc.IH [OF c(4)] show ?case by (simp add: open_last_def)
qed

lemma config_lexemes_last:
  assumes "statements c \<noteq> []"
  shows "config_lexemes c = head_lexemes c @
     (case open_last c of
        None \<Rightarrow> [(TOKEN_TYPE_STATEMENT_END, '';'')]
      | Some d \<Rightarrow> (TOKEN_TYPE_START_BLOCK, ''{'') # config_lexemes d @ [(TOKEN_TYPE_END_BLOCK, ''}'')])"
proof -
  obtain ss s where c: "c = NginxConfig (ss @ [s])"
    using assms by (cases c) (metis append_butlast_last_id nginx_config.sel)
  then show ?thesis by (cases s) (simp add: head_lexemes_def open_last_def)
qed

lemma head_lexemes_simps [simp]:
  "head_lexemes (add_statements [NginxConfigStatement ts d] c) =
     config_lexemes c @ map (Pair TOKEN_TYPE_NORMAL) ts"
  "statements c \<noteq> [] \<Longrightarrow> head_lexemes (put_last_child x c) = head_lexemes c"
  by (cases c; simp add: head_lexemes_def add_statements_def put_last_child_def)+

lemma push_token_head:
  "push_token t c = Inr c' \<Longrightarrow>
   head_lexemes c' = head_lexemes c @ [(TOKEN_TYPE_NORMAL, t)] \<and> open_last c' = open_last c"
  by (cases c) (auto simp: head_lexemes_def open_last_def split: if_splits)

lemma wf_top_config: "wf_config c \<Longrightarrow> stack_ok n c \<Longrightarrow> wf_config (top_config n c)"
proof (induction n c rule: stack_ok.induct)
  case (2 n ss)
  then have "ss \<noteq> []" "wf_statement (last ss)" by auto
  with 2 show ?case by (cases "last ss") (auto split: option.splits)
qed simp

lemma wf_butlast: "wf_config (NginxConfig ss) \<Longrightarrow> \<forall>s \<in> set (butlast ss). wf_statement s"
  by (auto dest: in_set_butlastD)

lemma wf_put_top: "wf_config c \<Longrightarrow> wf_config x \<Longrightarrow> stack_ok n c \<Longrightarrow> wf_config (put_top n x c)"
proof (induction n c rule: stack_ok.induct)
  case (2 n ss)
  then obtain ts d where l: "ss \<noteq> []" "last ss = NginxConfigStatement ts (Some d)" "stack_ok n d"
    by (cases "last ss") (auto split: option.splits)
  from l 2 have "wf_statement (NginxConfigStatement ts (Some d))" by (metis last_in_set wf_config.simps)
  with l 2 wf_butlast [of ss] show ?case by auto
qed simp

lemma wf_push_token:
  assumes "push_token t c = Inr c'" "wf_config c" "wf_token t"
  shows "wf_config c'"
proof -
  obtain ss where c: "c = NginxConfig ss" "ss \<noteq> []"
    using assms(1) by (cases c) (auto split: if_splits)
  then have "wf_statement (last ss)" using assms(2) by auto
  with c assms wf_butlast [of ss] show ?thesis
    by (cases "last ss") auto
qed

lemma wf_put_last_child:
  assumes "wf_config c" "wf_config x" "statements c \<noteq> []"
  shows "wf_config (put_last_child x c)"
proof -
  obtain ss where c: "c = NginxConfig ss" "ss \<noteq> []"
    using assms(3) by (cases c) auto
  then have "wf_statement (last ss)" using assms(1) by auto
  with c assms wf_butlast [of ss] show ?thesis
    by (cases "last ss") (auto simp: put_last_child_def)
qed

section \<open>The parser's invariant\<close>

definition parser_inv :: "parser_state \<Rightarrow> (token_type \<times> string) list \<Rightarrow> bool" where
  "parser_inv st seen \<longleftrightarrow>
     parser_safe st \<and> wf_config (out_config st) \<and>
     (boundary (last_token_type st) \<or> last_token_type st = TOKEN_TYPE_NORMAL) \<and>
     (last_token_type st = TOKEN_TYPE_NORMAL \<longrightarrow>
        open_last (top_config (config_stack st) (out_config st)) = None) \<and>
     seen = before (config_stack st) (out_config st) @
       (if last_token_type st = TOKEN_TYPE_NORMAL
        then head_lexemes (top_config (config_stack st) (out_config st))
        else config_lexemes (top_config (config_stack st) (out_config st)))"

definition uncommented :: "(token_type \<times> string) list \<Rightarrow> (token_type \<times> string) list" where
  "uncommented ts = filter (\<lambda>x. fst x \<noteq> TOKEN_TYPE_COMMENT) ts"

lemma uncommented_simps [simp]:
  "uncommented [] = []"
  "uncommented ((tt, t) # ts) =
     (if tt = TOKEN_TYPE_COMMENT then uncommented ts else (tt, t) # uncommented ts)"
  "uncommented (xs @ ys) = uncommented xs @ uncommented ys"
  by (simp_all add: uncommented_def)

lemma parser_inv_print [simp]: "parser_inv (print_line l st) seen = parser_inv st seen"
  by (simp add: parser_inv_def print_line_def parser_safe_def)

lemma parser_inv_start: "parser_inv (parse_start (NginxConfig [])) []"
  by (simp add: parser_inv_def parser_safe_start) (simp add: parse_start_def boundary_def)

lemma parser_invD:
  assumes "parser_inv st seen"
  shows "parser_safe st" "wf_config (out_config st)" "stack_ok (config_stack st) (out_config st)"
    "wf_config (top_config (config_stack st) (out_config st))"
  using assms wf_top_config by (auto simp: parser_inv_def parser_safe_def)

lemma parser_inv_step:
  assumes inv: "parser_inv st seen" and wf: "wf_lexeme (tt, tok)"
    and step: "parse_step st tt tok = Next st'"
  shows "parser_inv st' (seen @ uncommented [(tt, tok)])"
proof -
  note facts = parser_invD [OF inv]
  have safe': "parser_safe st'" by (rule parse_step_safe [OF facts(1) step])
  let ?n = "config_stack st" and ?c = "out_config st"
  let ?T = "top_config ?n ?c"
  from facts(1) step show ?thesis
  proof (cases rule: parse_step_cases)
    case comment
    with inv show ?thesis by simp
  next
    case first_word
    with wf have "wf_token tok" by simp
    then have "wf_config (add_statements [NginxConfigStatement [tok] None] ?T)"
      using facts(4) by (cases ?T) (auto simp: add_statements_def)
    with first_word inv safe' facts show ?thesis
      by (auto simp: parser_inv_def slot_simps before_put_top wf_put_top open_last_add boundary_def)
  next
    case (next_word c)
    with wf have "wf_config c" using wf_push_token [OF next_word(3) facts(4)] by simp
    with next_word inv safe' facts push_token_head [OF next_word(3)] show ?thesis
      by (auto simp: parser_inv_def slot_simps before_put_top wf_put_top)
  next
    case statement_end
    with inv have "statements ?T \<noteq> []" "open_last ?T = None"
      by (auto simp: parser_inv_def parser_safe_def)
    with statement_end inv safe' wf config_lexemes_last [of ?T] show ?thesis
      by (auto simp: parser_inv_def boundary_def)
  next
    case open_block
    with inv have ne: "statements ?T \<noteq> []"
      by (auto simp: parser_inv_def parser_safe_def)
    let ?c' = "put_top ?n (put_last_child (NginxConfig []) ?T) ?c"
    have "before (Suc ?n) ?c' = before ?n ?c @ head_lexemes ?T @ [(TOKEN_TYPE_START_BLOCK, ''{'')]"
      using before_Suc [OF stack_ok_open_child(1) [OF facts(3)]] facts(3) ne
      by (simp add: slot_simps before_put_top del: before.simps)
    moreover have "wf_config ?c'"
      using facts ne by (simp add: wf_put_top wf_put_last_child)
    moreover have "top_config (Suc ?n) ?c' = NginxConfig []"
      using facts(3) by (rule stack_ok_open_child(2))
    ultimately show ?thesis
      using open_block inv safe' wf by (simp add: parser_inv_def boundary_def del: before.simps)
  next
    case (close_block n)
    have ok: "stack_ok (Suc n) ?c" using facts(3) close_block(2) by simp
    then have "open_last (top_config n ?c) = Some (top_config (Suc n) ?c)"
      by (rule top_config_Suc)
    moreover from this have "statements (top_config n ?c) \<noteq> []"
      by (auto simp: open_last_def)
    ultimately have "config_lexemes (top_config n ?c) = head_lexemes (top_config n ?c) @
        (TOKEN_TYPE_START_BLOCK, ''{'') # config_lexemes (top_config (Suc n) ?c) @ [(TOKEN_TYPE_END_BLOCK, ''}'')]"
      using config_lexemes_last [of "top_config n ?c"] by simp
    with close_block inv safe' wf before_Suc [OF ok] show ?thesis
      by (simp add: parser_inv_def boundary_def del: before.simps)
  qed
qed

section \<open>What Parse accepts\<close>

lemma parse_step_Return:
  "parse_step st tt tok = Return b \<Longrightarrow>
   tt = TOKEN_TYPE_EOF \<and> b = (config_stack st = 0) \<and> last_token_type st \<noteq> TOKEN_TYPE_NORMAL"
  by (cases tt) (auto simp: parse_step.simps(4,6) split: if_splits sum.splits)

lemma run_tokens_sound:
  assumes "parser_inv st seen" "list_all wf_lexeme ts" "run_tokens st ts = Inr (True, st')"
  shows "\<exists>pre t post. ts = pre @ (TOKEN_TYPE_EOF, t) # post \<and> wf_config (out_config st') \<and>
     seen @ uncommented pre = config_lexemes (out_config st')"
  using assms
proof (induction st ts arbitrary: seen rule: run_tokens.induct)
  case (2 st tt tok ts)
  let ?st = "print_line (token_line tt tok) st"
  have inv: "parser_inv ?st seen" using "2.prems"(1) by simp
  show ?case
  proof (cases "parse_step ?st tt tok")
    case (Next st1)
    then have r: "run_tokens st1 ts = Inr (True, st')" using "2.prems"(3) by (simp add: Let_def)
    have w: "wf_lexeme (tt, tok)" "list_all wf_lexeme ts" using "2.prems"(2) by simp_all
    obtain pre t post where "ts = pre @ (TOKEN_TYPE_EOF, t) # post" "wf_config (out_config st')"
      "(seen @ uncommented [(tt, tok)]) @ uncommented pre = config_lexemes (out_config st')"
      using "2.IH" [OF refl Next parser_inv_step [OF inv w(1) Next] w(2) r] by blast
    then show ?thesis
      by (intro exI [of _ "(tt, tok) # pre"] exI [of _ t] exI [of _ post]) (simp split: if_splits)
  next
    case (Return b)
    then have tt: "tt = TOKEN_TYPE_EOF" and n: "config_stack st = 0"
      and l: "last_token_type st \<noteq> TOKEN_TYPE_NORMAL" and st': "st' = ?st"
      using "2.prems"(3) parse_step_Return [OF Return] by (auto simp: Let_def print_line_def)
    then show ?thesis
      using "2.prems"(1)
      by (intro exI [of _ "[]"] exI [of _ tok] exI [of _ ts])
        (simp add: parser_inv_def print_line_def)
  qed (use "2.prems"(3) in \<open>simp_all add: Let_def\<close>)
qed simp

text \<open>Comments and the diagnostic output have no influence on the result.\<close>

fun with_printed :: "string list \<Rightarrow> step_result \<Rightarrow> step_result" where
  "with_printed p (Next st) = Next (st\<lparr>printed := p\<rparr>)"
| "with_printed p r = r"

lemma parse_step_printed:
  "parse_step (st\<lparr>printed := p\<rparr>) tt tok = with_printed p (parse_step st tt tok)"
proof (cases tt)
  case TOKEN_TYPE_NORMAL
  then show ?thesis by (auto simp: parse_step.simps(4) split: sum.split)
next
  case TOKEN_TYPE_START_BLOCK
  then show ?thesis by (auto simp: parse_step.simps(6) split: sum.split)
qed auto

lemma out_config_print [simp]: "out_config (print_line l st) = out_config st"
  by (simp add: print_line_def)

lemma parse_result_printed:
  "parse_result (run_tokens (st\<lparr>printed := p\<rparr>) ts) = parse_result (run_tokens st ts)"
proof (induction st ts arbitrary: p rule: run_tokens.induct)
  case (2 st tt tok ts)
  let ?l = "token_line tt tok"
  let ?st = "print_line ?l st"
  have p: "print_line ?l (st\<lparr>printed := p\<rparr>) = ?st\<lparr>printed := p @ [?l]\<rparr>"
    by (simp add: print_line_def)
  show ?case
  proof (cases "parse_step ?st tt tok")
    case (Next st')
    from "2.IH" [OF refl Next] Next show ?thesis
      by (simp add: p parse_step_printed Let_def)
  qed (simp_all add: p parse_step_printed Let_def)
qed simp

lemma parse_result_uncommented:
  "parse_result (run_tokens st (uncommented ts)) = parse_result (run_tokens st ts)"
proof (induction st ts rule: run_tokens.induct)
  case (2 st tt tok ts)
  let ?st = "print_line (token_line tt tok) st"
  show ?case
  proof (cases "tt = TOKEN_TYPE_COMMENT")
    case True
    with "2.IH" [OF refl, of ?st] show ?thesis
      by (simp add: print_line_def parse_result_printed)
  next
    case False
    with "2.IH" [OF refl] show ?thesis
      by (simp add: Let_def split: step_result.split)
  qed
qed simp

lemma lex_ends_once:
  assumes "lex input = pre @ (TOKEN_TYPE_EOF, t) # post"
  shows "post = []"
proof -
  obtain ts tt tok where l: "lex input = ts @ [(tt, tok)]"
    and ts: "list_all (\<lambda>x. \<not> ends_input (fst x)) ts"
    using lex_shape by blast
  show ?thesis
  proof (cases post rule: rev_cases)
    case (snoc ys y)
    with assms l have "ts = pre @ (TOKEN_TYPE_EOF, t) # ys" by simp
    with ts show ?thesis by (simp add: ends_input_def)
  qed simp
qed

lemma parse_stream_sound:
  assumes "parse_stream input (NginxConfig []) = Inr (True, c)"
  shows "wf_config c" and "\<exists>ts t. lex input = ts @ [(TOKEN_TYPE_EOF, t)] \<and> uncommented ts = config_lexemes c"
proof -
  obtain st where r: "run_tokens (parse_start (NginxConfig [])) (lex input) = Inr (True, st)" and c: "c = out_config st"
    using assms unfolding parse_stream_run by (cases "run_tokens (parse_start (NginxConfig [])) (lex input)") auto
  from run_tokens_sound [OF parser_inv_start lex_wf r] obtain pre t post where
    p: "lex input = pre @ (TOKEN_TYPE_EOF, t) # post" "wf_config c" "uncommented pre = config_lexemes c"
    using c by auto
  then show "wf_config c" by simp
  from p lex_ends_once [OF p(1)]
  show "\<exists>ts t. lex input = ts @ [(TOKEN_TYPE_EOF, t)] \<and> uncommented ts = config_lexemes c" by auto
qed

lemma parse_stream_complete:
  assumes "wf_config c" "lex input = ts @ [(TOKEN_TYPE_EOF, t)]" "uncommented ts = config_lexemes c"
  shows "parse_stream input (NginxConfig []) = Inr (True, c)"
proof -
  have "uncommented (lex input) = config_lexemes c @ [(TOKEN_TYPE_EOF, t)]"
    using assms by simp
  then show ?thesis
    using parse_result_uncommented [of "parse_start (NginxConfig [])" "lex input"]
    by (simp add: parse_stream_run run_tree_lexemes [OF assms(1)])
qed

text \<open>
  C4: The parser implements its grammar: started on an empty configuration it succeeds with the
  tree c exactly when c is well formed (every statement has a token, every token is a word or a
  quoted string) and the tokens of the input up to the end of file, comments left out, are the
  lexemes of c: the words of each statement followed by a semicolon, or by a block in braces.
\<close>
theorem parse_stream_iff:
  "parse_stream input (NginxConfig []) = Inr (True, c) \<longleftrightarrow>
     wf_config c \<and>
     (\<exists>ts t. lex input = ts @ [(TOKEN_TYPE_EOF, t)] \<and> uncommented ts = config_lexemes c)"
  using parse_stream_sound parse_stream_complete by blast

lemma canonical_parses:
  assumes "parse_stream input (NginxConfig []) = Inr (True, c)"
  shows "parse_stream (config_to_string 0 c) (NginxConfig []) = Inr (True, c)"
proof -
  have wf: "wf_config c" by (rule parse_stream_sound(1) [OF assms])
  then have "lex (config_to_string 0 c) = config_lexemes c @ [(TOKEN_TYPE_EOF, [])]"
    using lex_config_to_string [OF wf, of 0 "[]"] by simp
  with wf show ?thesis by (rule parse_stream_lexemes)
qed

text \<open>
  The serialised form is a normal form: if an input parses to the tree c, then \<open>ToString\<close> of
  c parses to c again.
\<close>
theorem parse_normal_form:
  assumes "parse_stream input (NginxConfig []) = Inr (True, c)"
  shows "parse_stream (config_to_string 0 c) (NginxConfig []) = Inr (True, c)"
  by (rule canonical_parses [OF assms])

text \<open>Applied to a text with irregular white space and a comment.\<close>

theorem parse_normal_form_witness:
  "parse_stream (config_to_string 0 (NginxConfig
     [NginxConfigStatement [''server''] (Some (NginxConfig
       [NginxConfigStatement [''listen'', ''80''] None]))])) (NginxConfig []) =
   Inr (True, NginxConfig
     [NginxConfigStatement [''server''] (Some (NginxConfig
       [NginxConfigStatement [''listen'', ''80''] None]))])"
  by (rule parse_normal_form [where input = "''# port
server  {listen   80 ; }''"]) code_simp

text \<open>
  An unterminated word at the very end of the file is silently dropped: the text of any tree
  followed by a bare word, with nothing after it, parses successfully to the same tree as without
  the word, although no semicolon or block ends the statement that the word begins.
\<close>
theorem trailing_word_dropped:
  assumes "wf_config c" and "plain_token w"
  shows "parse_stream (config_to_string 0 c @ w) (NginxConfig []) = Inr (True, c)"
proof -
  have "lex w = [(TOKEN_TYPE_EOF, w)]"
    using parse_plain_token_eof [OF assms(2)] by (rule lex_end) simp
  then have "lex (config_to_string 0 c @ w) = config_lexemes c @ [(TOKEN_TYPE_EOF, w)]"
    using lex_config_to_string [OF assms(1)] by simp
  with assms(1) show ?thesis by (rule parse_stream_lexemes)
qed

text \<open>Applied to a block followed by the bare word \<open>garbage\<close>.\<close>

theorem trailing_word_dropped_witness:
  "parse_stream (config_to_string 0 (NginxConfig [NginxConfigStatement [''listen'', ''80''] None]) @
     ''garbage'') (NginxConfig []) =
   Inr (True, NginxConfig [NginxConfigStatement [''listen'', ''80''] None])"
  by (rule trailing_word_dropped)
    (simp_all add: wf_token_def plain_token_def word_start_def word_stop_def quote_def blank_def)

end
