(* ===== verification/Std_Numeric.thy ===== *)
theory Std_Numeric
  imports Std_String
begin

text \<open>
  \<open>std::to_string\<close>, \<open>std::stoi\<close> and \<open>std::stoull\<close>. An \<open>int\<close> has 32 bits and a \<open>size_t\<close> (and
  an \<open>unsigned long long\<close>) 64. The conversions skip white space, read an optional sign and then
  the longest run of digits; what follows is ignored. No digits is \<open>std::invalid_argument\<close>, a
  value outside the type is \<open>std::out_of_range\<close>. \<open>stoull\<close> accepts a minus sign and negates
  modulo \<open>2 ^ 64\<close>, as \<open>strtoull\<close> does.
\<close>

definition INT_MAX :: int where "INT_MAX = 2147483647"
definition INT_MIN :: int where "INT_MIN = -2147483648"

section \<open>Printing\<close>

definition digit_char :: "nat \<Rightarrow> char" where
  "digit_char d = char_of (48 + d)"

fun to_string_nat :: "nat \<Rightarrow> string" where
  "to_string_nat n =
     (if n < 10 then [digit_char n] else to_string_nat (n div 10) @ [digit_char (n mod 10)])"

declare to_string_nat.simps [simp del]

definition to_string_int :: "int \<Rightarrow> string" where
  "to_string_int i =
     (if i < 0 then CHR ''-'' # to_string_nat (nat (- i)) else to_string_nat (nat i))"

section \<open>Reading\<close>

definition digit_value :: "char \<Rightarrow> nat" where
  "digit_value c = of_char c - 48"

definition digits_value :: "string \<Rightarrow> nat" where
  "digits_value ds = foldl (\<lambda>a c. 10 * a + digit_value c) 0 ds"

text \<open>The sign and the digits a \<open>strtol\<close>-like conversion reads.\<close>

definition scan_number :: "string \<Rightarrow> bool \<times> string" where
  "scan_number s =
     (case dropWhile isspace s of
        [] \<Rightarrow> (False, [])
      | c # t \<Rightarrow>
          if c = CHR ''-'' then (True, takeWhile isdigit t)
          else if c = CHR ''+'' then (False, takeWhile isdigit t)
          else (False, takeWhile isdigit (c # t)))"

definition stoi :: "string \<Rightarrow> int outcome" where
  "stoi s =
     (let (neg, ds) = scan_number s;
          v = (if neg then - int (digits_value ds) else int (digits_value ds))
      in if ds = [] then Inl (Invalid_argument ''stoi'')
         else if v < INT_MIN \<or> INT_MAX < v then Inl (Out_of_range ''stoi'')
         else Inr v)"

definition stoull :: "string \<Rightarrow> 64 word outcome" where
  "stoull s =
     (let (neg, ds) = scan_number s; v = digits_value ds
      in if ds = [] then Inl (Invalid_argument ''stoull'')
         else if 2 ^ 64 \<le> v then Inl (Out_of_range ''stoull'')
         else Inr (if neg then - of_nat v else of_nat v))"

section \<open>Round trips\<close>

lemma of_char_digit_char [simp]: "d < 10 \<Longrightarrow> (of_char (digit_char d) :: nat) = 48 + d"
  by (simp add: digit_char_def)

lemma isdigit_digit_char [simp]: "d < 10 \<Longrightarrow> isdigit (digit_char d)"
  by (simp add: isdigit_def)

lemma digit_value_digit_char [simp]: "d < 10 \<Longrightarrow> digit_value (digit_char d) = d"
  by (simp add: digit_value_def)

lemma digits_value_snoc [simp]:
  "digits_value (ds @ [c]) = 10 * digits_value ds + digit_value c"
  by (simp add: digits_value_def)

lemma digits_value_Nil [simp]: "digits_value [] = 0"
  by (simp add: digits_value_def)

lemma to_string_nat_0 [simp]: "to_string_nat 0 = ''0''"
  by code_simp

lemma digits_value_to_string [simp]: "digits_value (to_string_nat n) = n"
proof (induction n rule: to_string_nat.induct)
  case (1 n)
  show ?case
  proof (cases "n < 10")
    case True
    then show ?thesis
      using digits_value_snoc [of "[]"] by (simp add: to_string_nat.simps [of n])
  next
    case False
    with "1.IH" show ?thesis by (simp add: to_string_nat.simps [of n])
  qed
qed

lemma to_string_nat_digits: "\<forall>c \<in> set (to_string_nat n). isdigit c"
proof (induction n rule: to_string_nat.induct)
  case (1 n)
  then show ?case
    by (cases "n < 10") (auto simp: to_string_nat.simps [of n])
qed

lemma to_string_nat_nonempty [simp]: "to_string_nat n \<noteq> []"
  by (subst to_string_nat.simps) simp

lemma to_string_nat_inject [simp]: "to_string_nat m = to_string_nat n \<longleftrightarrow> m = n"
  by (metis digits_value_to_string)

lemma length_to_string_nat: "length (to_string_nat n) \<le> Suc n"
proof (induction n rule: to_string_nat.induct)
  case (1 n)
  show ?case
  proof (cases "n < 10")
    case True
    then show ?thesis by (simp add: to_string_nat.simps [of n])
  next
    case False
    then have "n div 10 < n" by simp
    with 1 [OF False] show ?thesis using False by (simp add: to_string_nat.simps [of n])
  qed
qed

lemma isdigit_not_isspace: "isdigit c \<Longrightarrow> \<not> isspace c"
  by (auto simp: isdigit_def isspace_def)

lemma isdigit_not_sign: "isdigit c \<Longrightarrow> c \<noteq> CHR ''-'' \<and> c \<noteq> CHR ''+''"
  by (auto simp: isdigit_def)

lemma to_string_nat_no_sep:
  "\<not> isdigit c \<Longrightarrow> c \<notin> set (to_string_nat n)"
  using to_string_nat_digits by auto

lemma scan_number_to_string [simp]:
  "scan_number (to_string_nat n) = (False, to_string_nat n)"
proof -
  obtain c t where s: "to_string_nat n = c # t"
    using to_string_nat_nonempty by (cases "to_string_nat n") auto
  have d: "\<forall>x \<in> set (c # t). isdigit x"
    using to_string_nat_digits [of n] s by simp
  then have "takeWhile isdigit (c # t) = c # t"
    by (simp add: takeWhile_eq_all_conv)
  with d s show ?thesis
    using isdigit_not_isspace [of c] isdigit_not_sign [of c]
    by (simp add: scan_number_def)
qed

lemma stoi_to_string_nat [simp]:
  "int n \<le> INT_MAX \<Longrightarrow> stoi (to_string_nat n) = Inr (int n)"
  by (simp add: stoi_def INT_MAX_def INT_MIN_def)

lemma stoull_to_string_nat [simp]:
  "n < 2 ^ 64 \<Longrightarrow> stoull (to_string_nat n) = Inr (of_nat n)"
  by (simp add: stoull_def)

lemma scan_number_minus:
  "scan_number (CHR ''-'' # to_string_nat n) = (True, to_string_nat n)"
proof -
  have "takeWhile isdigit (to_string_nat n) = to_string_nat n"
    using to_string_nat_digits by (simp add: takeWhile_eq_all_conv)
  then show ?thesis by (simp add: scan_number_def isspace_def)
qed

lemma stoull_minus:
  "n < 2 ^ 64 \<Longrightarrow> stoull (CHR ''-'' # to_string_nat n) = Inr (- of_nat n)"
  by (simp add: stoull_def scan_number_minus)

lemma unat_minus_of_nat:
  assumes "0 < k" "k < 2 ^ 64"
  shows "unat (- of_nat k :: 64 word) = 2 ^ 64 - k"
proof -
  have "(of_nat (2 ^ 64 - k) :: 64 word) = of_nat (2 ^ 64) - of_nat k"
    using assms(2) by (intro of_nat_diff) simp
  then have "(- of_nat k :: 64 word) = of_nat (2 ^ 64 - k)" by simp
  then show ?thesis using assms(1) by (simp only: unat_of_nat) simp
qed

lemma stoi_to_string_int:
  assumes "INT_MIN \<le> i" "i \<le> INT_MAX"
  shows "stoi (to_string_int i) = Inr i"
proof (cases "i < 0")
  case True
  with assms show ?thesis
    by (simp add: to_string_int_def stoi_def scan_number_minus INT_MAX_def INT_MIN_def)
next
  case False
  with assms show ?thesis by (simp add: to_string_int_def)
qed

lemma stoi_range: "stoi s = Inr v \<Longrightarrow> INT_MIN \<le> v \<and> v \<le> INT_MAX"
  by (auto simp: stoi_def Let_def split: prod.splits if_splits)

lemma stoi_fails_cases:
  "stoi s = Inl e \<Longrightarrow> e = Invalid_argument ''stoi'' \<or> e = Out_of_range ''stoi''"
  by (auto simp: stoi_def Let_def split: prod.splits if_splits)

end
