(* ===== verification/Std_Map.thy ===== *)
theory Std_Map
  imports Prelude "HOL-Library.Char_ord" "HOL-Library.List_Lexorder"
begin

text \<open>
  \<open>std::map\<close> as the list of its entries in iteration order, that is, sorted by key with no key
  twice. Strings are compared byte by byte as unsigned values, which is the order that
  \<open>List_Lexorder\<close> and \<open>Char_ord\<close> give \<open>string\<close>. \<open>m[k] = v\<close> is \<open>map_put k v m\<close>, \<open>m.find(k)\<close>
  is \<open>map_of m k\<close>. The locale states what the components rely on; the list model interprets it.
\<close>

type_synonym ('k, 'v) std_map = "('k \<times> 'v) list"

fun map_put :: "'k::linorder \<Rightarrow> 'v \<Rightarrow> ('k, 'v) std_map \<Rightarrow> ('k, 'v) std_map" where
  "map_put k v [] = [(k, v)]"
| "map_put k v ((k', v') # m) =
     (if k < k' then (k, v) # (k', v') # m
      else if k = k' then (k, v) # m
      else (k', v') # map_put k v m)"

definition map_ok :: "('k::linorder, 'v) std_map \<Rightarrow> bool" where
  "map_ok m \<longleftrightarrow> sorted_wrt (<) (map fst m)"

section \<open>What the users of an ordered map rely on\<close>

locale ordered_map =
  fixes empty :: "'m"
    and put :: "'k::linorder \<Rightarrow> 'v \<Rightarrow> 'm \<Rightarrow> 'm"
    and lookup :: "'m \<Rightarrow> 'k \<Rightarrow> 'v option"
    and entries :: "'m \<Rightarrow> ('k \<times> 'v) list"
    and invar :: "'m \<Rightarrow> bool"
  assumes invar_empty: "invar empty"
    and lookup_empty: "lookup empty = Map.empty"
    and invar_put: "invar m \<Longrightarrow> invar (put k v m)"
    and lookup_put: "invar m \<Longrightarrow> lookup (put k v m) = (lookup m)(k \<mapsto> v)"
    and entries_sorted: "invar m \<Longrightarrow> sorted_wrt (<) (map fst (entries m))"
    and entries_lookup: "invar m \<Longrightarrow> (k, v) \<in> set (entries m) \<longleftrightarrow> lookup m k = Some v"
begin

lemma invar_put_all: "invar m \<Longrightarrow> invar (fold (\<lambda>(k, v). put k v) kvs m)"
  by (induction kvs arbitrary: m) (auto simp: invar_put)

lemma lookup_put_all:
  "invar m \<Longrightarrow> lookup (fold (\<lambda>(k, v). put k v) kvs m) = lookup m ++ map_of (rev kvs)"
  by (induction kvs arbitrary: m)
    (auto simp: invar_put lookup_put map_add_def fun_eq_iff split: option.splits)

lemma entries_eqI:
  assumes "invar m" "invar m'" "lookup m = lookup m'"
  shows "entries m = entries m'"
proof -
  have e: "set (entries m) = set (entries m')"
    using entries_lookup assms by auto
  have s: "sorted (map fst (entries m))" "distinct (map fst (entries m))"
    "sorted (map fst (entries m'))" "distinct (map fst (entries m'))"
    using entries_sorted assms(1,2) strict_sorted_iff by blast+
  then have "inj_on fst (set (entries m) \<union> set (entries m'))"
    by (simp add: e [symmetric] distinct_map)
  with s e show ?thesis
    by (intro map_sorted_distinct_set_unique)
qed

end

section \<open>The list model is an ordered map\<close>

lemma map_of_map_put [simp]: "map_of (map_put k v m) = (map_of m)(k \<mapsto> v)"
  by (induction k v m rule: map_put.induct) (auto simp: fun_eq_iff)

lemma fst_set_map_put: "fst ` set (map_put k v m) = insert k (fst ` set m)"
  by (induction k v m rule: map_put.induct) auto

lemma map_ok_Nil [simp]: "map_ok []"
  by (simp add: map_ok_def)

lemma map_ok_put [simp]: "map_ok m \<Longrightarrow> map_ok (map_put k v m)"
proof (induction k v m rule: map_put.induct)
  case (2 k v k' v' m)
  have "\<forall>x \<in> fst ` set (map_put k v m). k < x \<or> x = k \<or> x \<in> fst ` set m"
    by (auto simp: fst_set_map_put)
  with 2 show ?case
    using fst_set_map_put [of k v m] by (force simp: map_ok_def)
qed (simp add: map_ok_def)

lemma map_ok_distinct: "map_ok m \<Longrightarrow> distinct (map fst m)"
  by (simp add: map_ok_def strict_sorted_iff)

lemma map_ok_lookup: "map_ok m \<Longrightarrow> (k, v) \<in> set m \<longleftrightarrow> map_of m k = Some v"
  by (simp add: map_ok_distinct)

interpretation std: ordered_map "[]" map_put map_of "\<lambda>m. m" map_ok
  by unfold_locales (simp_all add: map_ok_lookup, simp add: map_ok_def)

definition map_put_all :: "('k::linorder \<times> 'v) list \<Rightarrow> ('k, 'v) std_map \<Rightarrow> ('k, 'v) std_map" where
  "map_put_all kvs m = fold (\<lambda>(k, v). map_put k v) kvs m"

lemma map_ok_put_all: "map_ok m \<Longrightarrow> map_ok (map_put_all kvs m)"
  unfolding map_put_all_def by (rule std.invar_put_all)

lemma map_of_put_all: "map_ok m \<Longrightarrow> map_of (map_put_all kvs m) = map_of m ++ map_of (rev kvs)"
  unfolding map_put_all_def by (rule std.lookup_put_all)

text \<open>Writing the entries of a map one after the other, in order, rebuilds it.\<close>

lemma map_put_snoc:
  "\<forall>x \<in> fst ` set m. x < k \<Longrightarrow> map_put k v m = m @ [(k, v)]"
  by (induction k v m rule: map_put.induct) auto

lemma map_put_all_sorted:
  "map_ok (m @ kvs) \<Longrightarrow> map_put_all kvs m = m @ kvs"
proof (induction kvs arbitrary: m)
  case (Cons kv kvs)
  obtain k v where kv: "kv = (k, v)" by (cases kv)
  have "\<forall>x \<in> fst ` set m. x < k"
    using Cons.prems by (auto simp: map_ok_def sorted_wrt_append kv)
  then have "map_put_all (kv # kvs) m = map_put_all kvs (m @ [kv])"
    by (simp add: map_put_all_def kv map_put_snoc)
  with Cons.IH [of "m @ [kv]"] Cons.prems show ?case by simp
qed (simp add: map_put_all_def)

end
