(* ===== verification/Server_Config.thy ===== *)
theory Server_Config
  imports Config_Grammar Std_Numeric Std_Map
begin

text \<open>
  \<open>ServerConfig\<close> and \<open>HandlerConfig\<close> (src/server_config.cc, include/server_config.h): reading the
  port and the routes out of a parsed configuration. An access \<open>tokens_[0]\<close> on a statement with
  no token is undefined behaviour in the code and \<open>Inl Out_of_bounds\<close> here; \<open>load_parsed_safe\<close>
  shows that it cannot happen on a tree that comes from the parser.
\<close>

section \<open>State\<close>

record handler_config =
  handler_type :: string
  settings :: "(string, string) std_map"

record server_config =
  port :: int
  routes :: "(string, handler_config) std_map"

definition default_handler_config :: handler_config where
  "default_handler_config = \<lparr>handler_type = [], settings = []\<rparr>"

definition default_server_config :: server_config where
  "default_server_config = \<lparr>port = 8080, routes = []\<rparr>"

section \<open>Operations\<close>

text \<open>One statement of a handler block, then the block.\<close>

definition read_setting :: "nginx_statement \<Rightarrow> handler_config \<Rightarrow> handler_config" where
  "read_setting statement config =
     (case tokens statement of
        [] \<Rightarrow> config
      | key # rest \<Rightarrow>
          if key = ''handler'' \<and> length (tokens statement) \<ge> 2
          then config\<lparr>handler_type := tokens statement ! 1\<rparr>
          else if length (tokens statement) \<ge> 2
          then config\<lparr>settings := map_put key (tokens statement ! 1) (settings config)\<rparr>
          else config)"

definition parse_handler_config :: "nginx_config \<Rightarrow> handler_config" where
  "parse_handler_config block = fold read_setting (statements block) default_handler_config"

text \<open>
  One statement of the server block: the state afterwards, and whether the loop goes on (an
  invalid port returns false at once).
\<close>

definition read_server_statement ::
  "nginx_statement \<Rightarrow> server_config \<Rightarrow> (bool \<times> server_config) outcome" where
  "read_server_statement st sc =
     (case tokens st of
        [] \<Rightarrow> Inl Out_of_bounds
      | key # rest \<Rightarrow>
          (let (go, sc) =
             (if key = ''listen'' \<and> length (tokens st) \<ge> 2
              then (case stoi (tokens st ! 1) of
                      Inl e \<Rightarrow> (False, sc)
                    | Inr p \<Rightarrow> (True, sc\<lparr>port := p\<rparr>))
              else (True, sc))
           in if \<not> go then Inr (False, sc)
              else Inr (True,
                if key = ''location'' \<and> length (tokens st) \<ge> 2
                then (case child_block st of
                        None \<Rightarrow> sc
                      | Some block \<Rightarrow>
                          sc\<lparr>routes := map_put (tokens st ! 1) (parse_handler_config block) (routes sc)\<rparr>)
                else sc)))"

fun read_server_block ::
  "nginx_statement list \<Rightarrow> server_config \<Rightarrow> (bool \<times> server_config) outcome" where
  "read_server_block [] sc = Inr (port sc > 0 \<and> routes sc \<noteq> [], sc)"
| "read_server_block (st # sts) sc =
     andThen (read_server_statement st sc) (\<lambda>(go, sc).
       if go then read_server_block sts sc else Inr (False, sc))"

fun load_statements ::
  "nginx_statement list \<Rightarrow> server_config \<Rightarrow> (bool \<times> server_config) outcome" where
  "load_statements [] sc = Inr (False, sc)"
| "load_statements (st # sts) sc =
     (case tokens st of
        [] \<Rightarrow> Inl Out_of_bounds
      | key # rest \<Rightarrow>
          (case child_block st of
             Some block \<Rightarrow>
               if key = ''server'' then read_server_block (statements block) sc
               else load_statements sts sc
           | None \<Rightarrow> load_statements sts sc))"

definition load_from_nginx_config ::
  "nginx_config \<Rightarrow> server_config \<Rightarrow> (bool \<times> server_config) outcome" where
  "load_from_nginx_config config sc = load_statements (statements config) sc"

text \<open>
  The messages on standard error: an invalid port ends the block, and the end of the loop over the
  top-level statements means that no server block was found.
\<close>

definition port_error :: "nginx_statement \<Rightarrow> bool" where
  "port_error st \<longleftrightarrow>
     length (tokens st) \<ge> 2 \<and> hd (tokens st) = ''listen'' \<and> \<not> succeeds (stoi (tokens st ! 1))"

fun load_stderr :: "nginx_statement list \<Rightarrow> string" where
  "load_stderr [] = ''No valid '' @ [SQUOTE] @ ''server'' @ [SQUOTE] @ '' block found in config.'' @ [LF]"
| "load_stderr (st # sts) =
     (case child_block st of
        Some block \<Rightarrow>
          if tokens st \<noteq> [] \<and> hd (tokens st) = ''server''
          then (if list_ex port_error (statements block) then ''Invalid port number'' @ [LF] else [])
          else load_stderr sts
      | None \<Rightarrow> load_stderr sts)"

text \<open>A configuration that loads prints nothing.\<close>

lemma read_server_statement_port:
  "read_server_statement st sc = Inr (True, sc') \<Longrightarrow> \<not> port_error st"
  by (cases "tokens st")
    (auto simp: read_server_statement_def port_error_def Let_def split: sum.splits if_splits)

lemma read_server_block_quiet:
  "read_server_block sts sc = Inr (True, sc') \<Longrightarrow> \<not> list_ex port_error sts"
  by (induction sts arbitrary: sc)
    (auto simp: andThen_eq_Inr dest: read_server_statement_port split: if_splits)

lemma load_quiet: "load_statements sts sc = Inr (True, sc') \<Longrightarrow> load_stderr sts = []"
  by (induction sts)
    (auto dest: read_server_block_quiet split: list.splits option.splits if_splits)

text \<open>A configuration that loads has a positive port and a route.\<close>

lemma read_server_block_positive:
  "read_server_block sts sc = Inr (True, sc') \<Longrightarrow> port sc' > 0 \<and> routes sc' \<noteq> []"
  by (induction sts arbitrary: sc) (auto simp: andThen_eq_Inr split: if_splits)

lemma load_positive:
  "load_statements sts sc = Inr (True, sc') \<Longrightarrow> port sc' > 0 \<and> routes sc' \<noteq> []"
  by (induction sts) (auto split: list.splits option.splits if_splits dest: read_server_block_positive)

section \<open>No access out of bounds\<close>

lemma wf_statement_tokens: "wf_statement st \<Longrightarrow> tokens st \<noteq> []"
  by (cases st) simp

lemma wf_statement_child: "wf_statement st \<Longrightarrow> child_block st = Some b \<Longrightarrow> \<forall>s \<in> set (statements b). wf_statement s"
  by (cases st; cases b) simp

lemma read_server_statement_total:
  "tokens st \<noteq> [] \<Longrightarrow> \<exists>go sc'. read_server_statement st sc = Inr (go, sc')"
  by (cases "tokens st")
    (auto simp: read_server_statement_def Let_def split: sum.split prod.split)

lemma read_server_block_total:
  "\<forall>s \<in> set sts. tokens s \<noteq> [] \<Longrightarrow> \<exists>r. read_server_block sts sc = Inr r"
proof (induction sts arbitrary: sc)
  case (Cons st sts)
  then obtain go sc1 where "read_server_statement st sc = Inr (go, sc1)"
    using read_server_statement_total [of st sc] by auto
  with Cons show ?case by auto
qed auto

lemma load_statements_total:
  "\<forall>s \<in> set sts. wf_statement s \<Longrightarrow> \<exists>ok sc'. load_statements sts sc = Inr (ok, sc')"
proof (induction sts)
  case (Cons st sts)
  then have ne: "tokens st \<noteq> []" using wf_statement_tokens by simp
  show ?case
  proof (cases "child_block st")
    case None
    with Cons ne show ?thesis by (simp split: list.split)
  next
    case (Some b)
    with Cons.prems have "\<forall>s \<in> set (statements b). tokens s \<noteq> []"
      using wf_statement_child [of st b] wf_statement_tokens by auto
    then have "\<exists>r. read_server_block (statements b) sc = Inr r"
      by (rule read_server_block_total)
    with Cons ne Some show ?thesis by (auto split: list.split)
  qed
qed auto

lemma load_parsed_total:
  assumes "parse_stream input (NginxConfig []) = Inr (True, c)"
  shows "\<exists>ok sc'. load_from_nginx_config c sc = Inr (ok, sc')"
proof -
  have "wf_config c" by (rule parse_stream_sound(1) [OF assms])
  then have "\<forall>s \<in> set (statements c). wf_statement s" by (cases c) simp
  then show ?thesis unfolding load_from_nginx_config_def by (rule load_statements_total)
qed

text \<open>
  Loading a configuration that the parser has accepted never reads a missing token: for every
  input text that parses, \<open>load_from_nginx_config\<close> returns true or false and does not index an
  empty token vector.
\<close>
theorem load_parsed_safe:
  assumes "parse_stream input (NginxConfig []) = Inr (True, c)"
  shows "\<exists>ok sc'. load_from_nginx_config c sc = Inr (ok, sc')"
  by (rule load_parsed_total [OF assms])

text \<open>Applied to a small accepted text.\<close>

theorem load_parsed_safe_witness:
  "\<exists>ok sc'. load_from_nginx_config
     (NginxConfig [NginxConfigStatement [''listen'', ''80''] None]) default_server_config = Inr (ok, sc')"
  by (rule load_parsed_safe [where input = "''listen 80;''"]) code_simp

section \<open>What loading computes\<close>

text \<open>The routes and the ports a list of server statements declares, in order.\<close>

definition location_entry :: "nginx_statement \<Rightarrow> (string \<times> handler_config) option" where
  "location_entry st =
     (if length (tokens st) \<ge> 2 \<and> tokens st ! 0 = ''location''
      then map_option (\<lambda>b. (tokens st ! 1, parse_handler_config b)) (child_block st)
      else None)"

definition listen_value :: "nginx_statement \<Rightarrow> string option" where
  "listen_value st =
     (if length (tokens st) \<ge> 2 \<and> tokens st ! 0 = ''listen'' then Some (tokens st ! 1) else None)"

definition declared_routes :: "nginx_statement list \<Rightarrow> (string \<times> handler_config) list" where
  "declared_routes sts = List.map_filter location_entry sts"

definition declared_listens :: "nginx_statement list \<Rightarrow> string list" where
  "declared_listens sts = List.map_filter listen_value sts"

fun final_port :: "int \<Rightarrow> string list \<Rightarrow> int outcome" where
  "final_port p [] = Inr p"
| "final_port p (v # vs) = andThen (stoi v) (\<lambda>q. final_port q vs)"

lemma declared_simps [simp]:
  "declared_routes [] = []" "declared_listens [] = []"
  "declared_routes (st # sts) =
     (case location_entry st of None \<Rightarrow> declared_routes sts | Some e \<Rightarrow> e # declared_routes sts)"
  "declared_listens (st # sts) =
     (case listen_value st of None \<Rightarrow> declared_listens sts | Some v \<Rightarrow> v # declared_listens sts)"
  by (simp_all add: declared_routes_def declared_listens_def List.map_filter_def split: option.split)

lemma read_server_statement_listen:
  assumes "listen_value st = Some v"
  shows "read_server_statement st sc =
     (case stoi v of Inl e \<Rightarrow> Inr (False, sc) | Inr p \<Rightarrow> Inr (True, sc\<lparr>port := p\<rparr>))"
    and "location_entry st = None"
  using assms
  by (cases "tokens st"; force simp: read_server_statement_def listen_value_def location_entry_def
      split: if_splits sum.split)+

lemma read_server_statement_other:
  assumes "listen_value st = None" "tokens st \<noteq> []"
  shows "read_server_statement st sc =
     Inr (True, case location_entry st of
       None \<Rightarrow> sc | Some (p, h) \<Rightarrow> sc\<lparr>routes := map_put p h (routes sc)\<rparr>)"
  using assms
  by (cases "tokens st")
    (auto simp: read_server_statement_def listen_value_def location_entry_def split: if_splits option.split)

lemma map_put_all_Cons [simp]: "map_put_all ((k, v) # kvs) m = map_put_all kvs (map_put k v m)"
  and map_put_all_Nil [simp]: "map_put_all [] m = m"
  by (simp_all add: map_put_all_def)

lemma read_server_block_ok:
  assumes "\<forall>s \<in> set sts. tokens s \<noteq> []" "final_port (port sc) (declared_listens sts) = Inr p"
  shows "read_server_block sts sc =
     (let sc' = sc\<lparr>port := p, routes := map_put_all (declared_routes sts) (routes sc)\<rparr>
      in Inr (port sc' > 0 \<and> routes sc' \<noteq> [], sc'))"
  using assms
proof (induction sts arbitrary: sc)
  case (Cons st sts)
  show ?case
  proof (cases "listen_value st")
    case None
    with Cons show ?thesis
      by (auto simp: read_server_statement_other Let_def split: option.split)
  next
    case (Some v)
    with Cons.prems(2) obtain q where q: "stoi v = Inr q" "final_port q (declared_listens sts) = Inr p"
      by (auto simp: outcome_simps)
    with Some Cons show ?thesis
      by (simp add: read_server_statement_listen Let_def)
  qed
qed simp

lemma read_server_block_bad_port:
  assumes "\<forall>s \<in> set sts. tokens s \<noteq> []" "final_port (port sc) (declared_listens sts) = Inl e"
  shows "\<exists>sc'. read_server_block sts sc = Inr (False, sc')"
  using assms
proof (induction sts arbitrary: sc)
  case (Cons st sts)
  show ?case
  proof (cases "listen_value st")
    case None
    with Cons show ?thesis
      by (auto simp: read_server_statement_other split: option.split)
  next
    case (Some v)
    with Cons show ?thesis
      by (cases "stoi v") (auto simp: read_server_statement_listen)
  qed
qed simp

text \<open>
  What a server block means: reading its statements into a configuration succeeds exactly when
  every \<open>listen\<close> value is an integer, the last one (or the port configured before) is positive and
  at least one route is known; the port is then that value, and a path is routed to the last
  \<open>location\<close> block given for it, earlier routes of the configuration kept.
\<close>
theorem read_server_block_spec:
  assumes "\<forall>s \<in> set sts. tokens s \<noteq> []" and "map_ok (routes sc)"
  shows "read_server_block sts sc = Inr (True, sc') \<longleftrightarrow>
     final_port (port sc) (declared_listens sts) = Inr (port sc') \<and> port sc' > 0 \<and> routes sc' \<noteq> [] \<and>
     map_ok (routes sc') \<and> map_of (routes sc') = map_of (routes sc) ++ map_of (rev (declared_routes sts))"
proof (cases "final_port (port sc) (declared_listens sts)")
  case (Inl e)
  with read_server_block_bad_port [OF assms(1) Inl] show ?thesis by auto
next
  case (Inr p)
  let ?rs = "map_put_all (declared_routes sts) (routes sc)"
  have ok: "map_ok ?rs" and rs: "map_of ?rs = map_of (routes sc) ++ map_of (rev (declared_routes sts))"
    using assms(2) by (simp_all add: map_ok_put_all map_of_put_all)
  have uniq: "map_ok m \<Longrightarrow> map_of m = map_of ?rs \<Longrightarrow> m = ?rs" for m
    using std.entries_eqI [of m ?rs] ok by simp
  show ?thesis
    using read_server_block_ok [OF assms(1) Inr] ok rs uniq [of "routes sc'"] Inr
    by (cases sc'; cases sc) (auto simp: Let_def)
qed

text \<open>Applied to a block with two \<open>listen\<close> statements and a route.\<close>

theorem read_server_block_spec_witness:
  "read_server_block
     [NginxConfigStatement [''listen'', ''80''] None, NginxConfigStatement [''listen'', ''8080''] None,
      NginxConfigStatement [''location'', ''/echo''] (Some (NginxConfig
        [NginxConfigStatement [''handler'', ''EchoHandler''] None]))] \<lparr>port = 1, routes = []\<rparr> =
   Inr (True, \<lparr>port = 8080, routes = [(''/echo'', \<lparr>handler_type = ''EchoHandler'', settings = []\<rparr>)]\<rparr>)"
  (is "read_server_block ?sts _ = _")
proof (rule iffD2 [OF read_server_block_spec], goal_cases)
  case 3
  have p: "final_port 1 (declared_listens ?sts) = Inr 8080"
    and r: "declared_routes ?sts = [(''/echo'', \<lparr>handler_type = ''EchoHandler'', settings = []\<rparr>)]"
    by code_simp+
  have "map_of [(''/echo'', h)] = Map.empty ++ map_of (rev [(''/echo'', h)])" for h :: handler_config
    by simp
  then show ?case
    unfolding r server_config.simps p by (simp add: map_ok_def)
qed simp_all

end
