(* ===== verification/Http_Framing.thy ===== *)
theory Http_Framing
  imports Std_Numeric
begin

text \<open>
  The shape that requests and responses share on the wire: a head of lines that end in CR LF, an
  empty line, and a body. Nothing here is code of the server; the request parser, the response
  printer and the session all meet this shape, and their proofs use these facts about it.
\<close>

definition crlf_lines :: "string list \<Rightarrow> string" where
  "crlf_lines ls = concat (map (\<lambda>l. l @ CRLF) ls)"

definition end_of_head :: string where
  "end_of_head = CRLF @ CRLF"

text \<open>A message with the given head lines and body.\<close>

definition http_message :: "string list \<Rightarrow> string \<Rightarrow> string" where
  "http_message ls body = crlf_lines ls @ CRLF @ body"

definition head_line :: "string \<Rightarrow> bool" where
  "head_line l \<longleftrightarrow> l \<noteq> [] \<and> CR \<notin> set l \<and> LF \<notin> set l"

lemma crlf_lines_simps [simp]:
  "crlf_lines [] = []"
  "crlf_lines (l # ls) = l @ CRLF @ crlf_lines ls"
  by (simp_all add: crlf_lines_def)

lemma crlf_lines_append: "crlf_lines (xs @ ys) = crlf_lines xs @ crlf_lines ys"
  by (simp add: crlf_lines_def)

lemma str_find_skip:
  "c \<notin> set l \<Longrightarrow> str_find (c # p) (l @ r) = map_option (\<lambda>i. length l + i) (str_find (c # p) r)"
proof (induction l)
  case Nil
  show ?case by (cases "str_find (c # p) r") simp_all
next
  case (Cons a l)
  then show ?case by (cases "str_find (c # p) r") auto
qed

lemma str_find_end_of_head:
  assumes "head_line l" "\<forall>l' \<in> set ls. head_line l'"
  shows "str_find end_of_head (http_message (l # ls) body) =
           Some (length (crlf_lines (l # ls)) - 2)"
  using assms
proof (induction ls arbitrary: l)
  case Nil
  have "CR \<notin> set l" using Nil.prems by (simp add: head_line_def)
  then show ?case
    by (simp add: end_of_head_def http_message_def str_find_skip)
next
  case (Cons l' ls)
  have l: "CR \<notin> set l" and l': "l' \<noteq> []" "CR \<notin> set l'"
    using Cons.prems by (simp_all add: head_line_def)
  obtain a t where a: "l' = a # t" "a \<noteq> CR"
    using l' by (cases l') auto
  have "str_find end_of_head (http_message (l # l' # ls) body) =
        map_option (\<lambda>i. length l + 2 + i) (str_find end_of_head (http_message (l' # ls) body))"
    using a by (cases "str_find [CR, LF, CR, LF] (crlf_lines (l' # ls) @ CR # LF # body)")
      (auto simp: end_of_head_def http_message_def str_find_skip [OF l])
  moreover have "2 \<le> length (crlf_lines (l' # ls))" by simp
  ultimately show ?case
    using Cons.IH [of l'] Cons.prems by simp
qed

lemma getlines_crlf_lines:
  "\<forall>l \<in> set ls. LF \<notin> set l \<Longrightarrow>
     getlines LF (crlf_lines ls @ r) = map (\<lambda>l. l @ [CR]) ls @ getlines LF r"
proof (induction ls)
  case (Cons l ls)
  have "getlines LF ((l @ [CR]) @ LF # (crlf_lines ls @ r)) = (l @ [CR]) # getlines LF (crlf_lines ls @ r)"
    using Cons.prems by (intro getlines_line) simp
  with Cons show ?case by simp
qed simp

lemma head_and_body:
  assumes "head_line l" "\<forall>l' \<in> set ls. head_line l'"
    and "str_find end_of_head (http_message (l # ls) body) = Some i"
  shows "take (i + 2) (http_message (l # ls) body) = crlf_lines (l # ls)"
    and "drop (i + 4) (http_message (l # ls) body) = body"
proof -
  have i: "i + 2 = length (crlf_lines (l # ls))"
    using str_find_end_of_head [of l ls body] assms by simp
  then show "take (i + 2) (http_message (l # ls) body) = crlf_lines (l # ls)"
    by (simp add: http_message_def)
  have "i + 4 = 2 + length (crlf_lines (l # ls))" using i by linarith
  then have "drop (i + 4) (http_message (l # ls) body) =
        drop 2 (drop (length (crlf_lines (l # ls))) (http_message (l # ls) body))"
    by (simp only: drop_drop)
  then show "drop (i + 4) (http_message (l # ls) body) = body"
    by (simp add: http_message_def)
qed

end
