(* ===== verification/Http_Response.thy ===== *)
theory Http_Response
  imports Http_Framing Std_Map
begin

text \<open>
  \<open>HttpResponse\<close> (src/http_response.cc, include/http_response.h). \<open>status_code\<close> is an option
  because the default constructor leaves it uninitialised: \<open>None\<close> is an indeterminate value, and
  reading it is undefined behaviour. The rest of the theory shows how a client reads a serialised
  response back: the head ends at the first empty line and the body is what follows, as long as
  the \<open>Content-Length\<close> header agrees with it.
\<close>

section \<open>State and operations\<close>

record http_response =
  version :: string
  status_code :: "int option"
  reason_phrase :: string
  headers_map :: "(string, string) std_map"
  message_body :: string

definition default_response :: http_response where
  "default_response =
     \<lparr>version = ''HTTP/1.1'', status_code = None, reason_phrase = [],
      headers_map = [(''Content-Length'', ''0'')], message_body = []\<rparr>"

definition set_version :: "string \<Rightarrow> http_response \<Rightarrow> http_response" where
  "set_version v r = r\<lparr>version := v\<rparr>"

definition set_status_code :: "int \<Rightarrow> http_response \<Rightarrow> http_response" where
  "set_status_code sc r = r\<lparr>status_code := Some sc\<rparr>"

definition set_reason_phrase :: "string \<Rightarrow> http_response \<Rightarrow> http_response" where
  "set_reason_phrase rp r = r\<lparr>reason_phrase := rp\<rparr>"

definition set_header :: "string \<Rightarrow> string \<Rightarrow> http_response \<Rightarrow> http_response" where
  "set_header k v r = r\<lparr>headers_map := map_put k v (headers_map r)\<rparr>"

definition set_message_body :: "string \<Rightarrow> http_response \<Rightarrow> http_response" where
  "set_message_body mb r =
     (let r = r\<lparr>message_body := mb\<rparr>
      in set_header ''Content-Length'' (to_string_nat (length (message_body r))) r)"

text \<open>The constructor with all parts; a braced header list is an initialised \<open>std::map\<close>.\<close>

definition make_response ::
  "string \<Rightarrow> int \<Rightarrow> string \<Rightarrow> (string, string) std_map \<Rightarrow> string \<Rightarrow> http_response" where
  "make_response v sc rp hm mb =
     (let r = \<lparr>version = v, status_code = Some sc, reason_phrase = rp,
               headers_map = hm, message_body = mb\<rparr>
      in set_header ''Content-Length'' (to_string_nat (length (message_body r))) r)"

text \<open>The response every handler builds: one content type, a status and a body.\<close>

definition reply :: "int \<Rightarrow> string \<Rightarrow> string \<Rightarrow> string \<Rightarrow> http_response" where
  "reply sc rp content_type mb =
     make_response ''HTTP/1.1'' sc rp [(''Content-Type'', content_type)] mb"

definition get_status_code :: "http_response \<Rightarrow> int outcome" where
  "get_status_code r = (case status_code r of None \<Rightarrow> Inl Out_of_bounds | Some sc \<Rightarrow> Inr sc)"

definition get_header :: "string \<Rightarrow> http_response \<Rightarrow> string" where
  "get_header name r = (case map_of (headers_map r) name of Some v \<Rightarrow> v | None \<Rightarrow> [])"

definition header_line :: "string \<times> string \<Rightarrow> string" where
  "header_line = (\<lambda>(name, value). name @ '': '' @ value @ CRLF)"

definition convert_to_string :: "http_response \<Rightarrow> string outcome" where
  "convert_to_string r =
     andThen (get_status_code r) (\<lambda>sc.
       Inr ((version r @ '' '' @ to_string_int sc @ '' '' @ reason_phrase r @ CRLF) @
            concat (map header_line (headers_map r)) @ CRLF @ message_body r))"

section \<open>The invariant of a response\<close>

text \<open>What every operation keeps: sorted headers, and a length that agrees with the body.\<close>

definition response_ok :: "http_response \<Rightarrow> bool" where
  "response_ok r \<longleftrightarrow>
     map_ok (headers_map r) \<and>
     map_of (headers_map r) ''Content-Length'' = Some (to_string_nat (length (message_body r)))"

lemma response_ok_default: "response_ok default_response"
  by (simp add: response_ok_def default_response_def map_ok_def)

lemma response_ok_make: "map_ok hm \<Longrightarrow> response_ok (make_response v sc rp hm mb)"
  by (simp add: response_ok_def make_response_def set_header_def)

lemma response_ok_set_body: "response_ok r \<Longrightarrow> response_ok (set_message_body mb r)"
  by (simp add: response_ok_def set_message_body_def set_header_def Let_def)

lemma response_ok_set_header:
  "response_ok r \<Longrightarrow> k \<noteq> ''Content-Length'' \<Longrightarrow> response_ok (set_header k v r)"
  by (auto simp: response_ok_def set_header_def)

lemma response_ok_setters:
  "response_ok r \<Longrightarrow> response_ok (set_version v r)"
  "response_ok r \<Longrightarrow> response_ok (set_status_code sc r)"
  "response_ok r \<Longrightarrow> response_ok (set_reason_phrase rp r)"
  by (simp_all add: response_ok_def set_version_def set_status_code_def set_reason_phrase_def)

lemma make_response_simps [simp]:
  "version (make_response v sc rp hm mb) = v"
  "status_code (make_response v sc rp hm mb) = Some sc"
  "reason_phrase (make_response v sc rp hm mb) = rp"
  "message_body (make_response v sc rp hm mb) = mb"
  "headers_map (make_response v sc rp hm mb) = map_put ''Content-Length'' (to_string_nat (length mb)) hm"
  by (simp_all add: make_response_def set_header_def)

text \<open>A field that cannot break the framing: no line break, and no colon in a header name.\<close>

definition clean :: "string \<Rightarrow> bool" where
  "clean s \<longleftrightarrow> CR \<notin> set s \<and> LF \<notin> set s"

definition clean_header :: "string \<times> string \<Rightarrow> bool" where
  "clean_header = (\<lambda>(name, value). clean name \<and> CHR '':'' \<notin> set name \<and> clean value)"

definition clean_response :: "http_response \<Rightarrow> bool" where
  "clean_response r \<longleftrightarrow>
     clean (version r) \<and> clean (reason_phrase r) \<and> list_all clean_header (headers_map r)"

lemma clean_simps [simp]:
  "clean []"
  "clean (c # s) \<longleftrightarrow> c \<noteq> CR \<and> c \<noteq> LF \<and> clean s"
  "clean (s @ t) \<longleftrightarrow> clean s \<and> clean t"
  by (auto simp: clean_def)

lemma clean_to_string_nat [simp]: "clean (to_string_nat n)"
  using to_string_nat_digits [of n] by (auto simp: clean_def isdigit_def)

lemma clean_to_string_int [simp]: "clean (to_string_int i)"
  by (simp add: to_string_int_def)

text \<open>What a response must be for the session to send it.\<close>

definition sendable :: "http_response \<Rightarrow> bool" where
  "sendable r \<longleftrightarrow> response_ok r \<and> status_code r \<noteq> None \<and> clean_response r"

lemma reply_simps [simp]:
  "status_code (reply sc rp ct mb) = Some sc"
  "message_body (reply sc rp ct mb) = mb"
  "reason_phrase (reply sc rp ct mb) = rp"
  "response_ok (reply sc rp ct mb)"
  "clean_response (reply sc rp ct mb) \<longleftrightarrow> clean rp \<and> clean ct"
  "sendable (reply sc rp ct mb) \<longleftrightarrow> clean rp \<and> clean ct"
proof -
  show ok: "response_ok (reply sc rp ct mb)"
    unfolding reply_def by (rule response_ok_make) (simp add: map_ok_def)
  show clean: "clean_response (reply sc rp ct mb) \<longleftrightarrow> clean rp \<and> clean ct"
    by (simp add: clean_response_def clean_header_def reply_def make_response_def set_header_def)
  show "status_code (reply sc rp ct mb) = Some sc" "message_body (reply sc rp ct mb) = mb"
    "reason_phrase (reply sc rp ct mb) = rp"
    by (simp_all add: reply_def)
  then show "sendable (reply sc rp ct mb) \<longleftrightarrow> clean rp \<and> clean ct"
    using ok clean by (simp add: sendable_def)
qed

section \<open>Reading a response back\<close>

text \<open>
  What a client does with the bytes of a connection: it takes the head up to the first empty line,
  splits every header at its first colon and reads as many bytes of body as \<open>Content-Length\<close>
  says. The result is the status line, the headers, the body and the bytes that are left.
\<close>

definition client_header :: "string \<Rightarrow> string \<times> string" where
  "client_header l =
     (takeWhile (\<lambda>c. c \<noteq> CHR '':'') l, drop 2 (dropWhile (\<lambda>c. c \<noteq> CHR '':'') l))"

definition client_receive ::
  "string \<Rightarrow> (string \<times> (string \<times> string) list \<times> string \<times> string) option" where
  "client_receive bytes =
     (case str_find end_of_head bytes of
        None \<Rightarrow> None
      | Some i \<Rightarrow>
          (case map butlast (getlines LF (take (i + 2) bytes)) of
             [] \<Rightarrow> None
           | status # lines \<Rightarrow>
               (let hs = map client_header lines; rest = drop (i + 4) bytes
                in case map_of hs ''Content-Length'' of
                     None \<Rightarrow> None
                   | Some v \<Rightarrow>
                       (case stoull v of
                          Inl e \<Rightarrow> None
                        | Inr n \<Rightarrow>
                            if length rest < unat n then None
                            else Some (status, hs, take (unat n) rest, drop (unat n) rest)))))"

definition status_line :: "http_response \<Rightarrow> int \<Rightarrow> string" where
  "status_line r sc = version r @ '' '' @ to_string_int sc @ '' '' @ reason_phrase r"

lemma convert_to_string_message:
  "status_code r = Some sc \<Longrightarrow>
     convert_to_string r =
       Inr (http_message (status_line r sc # map (\<lambda>(n, v). n @ '': '' @ v) (headers_map r))
              (message_body r))"
  by (simp add: convert_to_string_def get_status_code_def http_message_def crlf_lines_def
      status_line_def header_line_def comp_def case_prod_unfold)

lemma head_line_status: "clean_response r \<Longrightarrow> head_line (status_line r sc)"
  using clean_to_string_int [of sc]
  by (auto simp: clean_response_def head_line_def status_line_def clean_def)

lemma head_line_headers:
  "clean_header h \<Longrightarrow> head_line (case h of (n, v) \<Rightarrow> n @ '': '' @ v)"
  by (auto simp: clean_header_def clean_def head_line_def)

lemma client_header_line: "clean_header h \<Longrightarrow> client_header (case h of (n, v) \<Rightarrow> n @ '': '' @ v) = h"
  by (auto simp: clean_header_def client_header_def)

lemma map_client_headers:
  "list_all clean_header hs \<Longrightarrow> map (client_header \<circ> (\<lambda>(n, v). n @ '': '' @ v)) hs = hs"
  unfolding comp_def by (rule map_idI, rule client_header_line) (simp add: list_all_iff)

lemma client_receive_message:
  assumes "head_line l" "\<forall>h \<in> set hs. clean_header h"
    and "map_of hs ''Content-Length'' = Some (to_string_nat (length body))" "length body < 2 ^ 64"
  shows "client_receive (http_message (l # map (\<lambda>(n, v). n @ '': '' @ v) hs) (body @ rest)) =
           Some (l, hs, body, rest)"
proof -
  let ?ls = "map (\<lambda>(n, v). n @ '': '' @ v) hs"
  have lines: "\<forall>l' \<in> set ?ls. head_line l'"
    using assms(2) head_line_headers by (auto simp: case_prod_unfold)
  obtain i where i: "str_find end_of_head (http_message (l # ?ls) (body @ rest)) = Some i"
    using str_find_end_of_head [OF assms(1) lines] by blast
  have no_lf: "\<forall>l' \<in> set (l # ?ls). LF \<notin> set l'"
    using assms(1) lines by (auto simp: head_line_def)
  have "map butlast (getlines LF (crlf_lines (l # ?ls))) = l # ?ls"
    using getlines_crlf_lines [OF no_lf, of "[]"] by (simp add: comp_def)
  moreover have "map client_header ?ls = hs"
    using map_client_headers [of hs] assms(2) by (simp add: list_all_iff)
  moreover have "unat (of_nat (length body) :: 64 word) = length body"
    using assms(4) by (simp add: unat_of_nat)
  ultimately show ?thesis
    using i assms(3,4) head_and_body [OF assms(1) lines i]
    by (simp add: client_receive_def stoull_to_string_nat)
qed

lemma clean_reply_framing:
  assumes "response_ok r" "status_code r = Some sc" "clean_response r"
    and "length (message_body r) < 2 ^ 64"
  shows "\<exists>s. convert_to_string r = Inr s \<and>
           (\<forall>rest. client_receive (s @ rest) =
             Some (status_line r sc, headers_map r, message_body r, rest))"
proof -
  have h: "\<forall>h \<in> set (headers_map r). clean_header h"
    using assms(3) by (simp add: clean_response_def list_all_iff)
  have app: "http_message ls b @ rest = http_message ls (b @ rest)" for ls b rest
    by (simp add: http_message_def)
  show ?thesis
    using client_receive_message [OF head_line_status [OF assms(3)] h] assms(1,4)
    by (simp add: convert_to_string_message [OF assms(2)] app response_ok_def)
qed

text \<open>
  C29: a serialised response is framed correctly. When the fields contain no line break (and header
  names no colon), a client that splits the bytes at the first empty line and trusts
  \<open>Content-Length\<close> reads back exactly the status line, the headers and the body, and is left with
  exactly the bytes that the server sends after this response.
\<close>

theorem response_framing:
  assumes "response_ok r" "status_code r = Some sc" "clean_response r"
    and "length (message_body r) < 2 ^ 64"
  shows "\<exists>s. convert_to_string r = Inr s \<and>
           (\<forall>rest. client_receive (s @ rest) =
             Some (status_line r sc, headers_map r, message_body r, rest))"
  by (rule clean_reply_framing [OF assms])

theorem response_framing_witness:
  "\<exists>s. convert_to_string
         (make_response ''HTTP/1.1'' 200 ''OK'' [(''Content-Type'', ''text/plain'')] ''hi'') = Inr s \<and>
     (\<forall>rest. client_receive (s @ rest) =
        Some (status_line
                (make_response ''HTTP/1.1'' 200 ''OK'' [(''Content-Type'', ''text/plain'')] ''hi'') 200,
              headers_map
                (make_response ''HTTP/1.1'' 200 ''OK'' [(''Content-Type'', ''text/plain'')] ''hi''),
              message_body
                (make_response ''HTTP/1.1'' 200 ''OK'' [(''Content-Type'', ''text/plain'')] ''hi''),
              rest))"
  by (rule response_framing, simp add: response_ok_make map_ok_def, simp, code_simp, code_simp)

section \<open>The calls a program makes on a response\<close>

datatype response_call =
    Set_version string
  | Set_status_code int
  | Set_reason_phrase string
  | Set_header string string
  | Set_message_body string

fun apply_call :: "response_call \<Rightarrow> http_response \<Rightarrow> http_response" where
  "apply_call (Set_version v) r = set_version v r"
| "apply_call (Set_status_code sc) r = set_status_code sc r"
| "apply_call (Set_reason_phrase rp) r = set_reason_phrase rp r"
| "apply_call (Set_header k v) r = set_header k v r"
| "apply_call (Set_message_body mb) r = set_message_body mb r"

fun overrides_length :: "response_call \<Rightarrow> bool" where
  "overrides_length (Set_header k v) = (k = ''Content-Length'')"
| "overrides_length _ = False"

fun sets_status :: "response_call \<Rightarrow> bool" where
  "sets_status (Set_status_code sc) = True"
| "sets_status _ = False"

definition default_calls :: "response_call list \<Rightarrow> http_response" where
  "default_calls calls = fold apply_call calls default_response"

lemma apply_call_ok:
  "response_ok r \<Longrightarrow> \<not> overrides_length call \<Longrightarrow> response_ok (apply_call call r)"
  by (cases call) (simp_all add: response_ok_setters response_ok_set_header response_ok_set_body)

lemma response_calls_ok:
  "response_ok r \<Longrightarrow> list_all (\<lambda>c. \<not> overrides_length c) calls \<Longrightarrow>
     response_ok (fold apply_call calls r)"
  by (induction calls arbitrary: r) (simp_all add: apply_call_ok)

lemma apply_call_status:
  "status_code (apply_call call r) \<noteq> None \<longleftrightarrow> status_code r \<noteq> None \<or> sets_status call"
  by (cases call) (simp_all add: set_version_def set_status_code_def set_reason_phrase_def
      set_header_def set_message_body_def Let_def)

lemma response_calls_status:
  "status_code (fold apply_call calls r) \<noteq> None \<longleftrightarrow>
     status_code r \<noteq> None \<or> list_ex sets_status calls"
  by (induction calls arbitrary: r) (use apply_call_status in auto)

text \<open>
  A response built by setters on the default constructor always carries a \<open>Content-Length\<close>
  that agrees with its body and at most one entry per header name, however the calls are ordered,
  as long as no call overwrites \<open>Content-Length\<close> itself; and serialising it is defined exactly
  when some call has set the status code, which the constructor leaves uninitialised.
\<close>

theorem default_calls_invariant:
  assumes "list_all (\<lambda>c. \<not> overrides_length c) calls"
  shows "response_ok (default_calls calls) \<and>
    (succeeds (convert_to_string (default_calls calls)) \<longleftrightarrow> list_ex sets_status calls)"
proof
  show "response_ok (default_calls calls)"
    unfolding default_calls_def by (rule response_calls_ok [OF response_ok_default assms])
  have "status_code (default_calls calls) \<noteq> None \<longleftrightarrow> list_ex sets_status calls"
    unfolding default_calls_def response_calls_status by (simp add: default_response_def)
  then show "succeeds (convert_to_string (default_calls calls)) \<longleftrightarrow> list_ex sets_status calls"
    by (cases "status_code (default_calls calls)")
      (auto simp: convert_to_string_def get_status_code_def)
qed

theorem default_calls_invariant_witness:
  "response_ok (default_calls [Set_message_body ''ab'', Set_status_code 200, Set_header ''A'' ''b'']) \<and>
   (succeeds (convert_to_string
      (default_calls [Set_message_body ''ab'', Set_status_code 200, Set_header ''A'' ''b''])) \<longleftrightarrow>
    list_ex sets_status [Set_message_body ''ab'', Set_status_code 200, Set_header ''A'' ''b''])"
  by (rule default_calls_invariant) code_simp

end
