(* ===== verification/Http_Request.thy ===== *)
theory Http_Request
  imports Http_Framing Std_Map
begin

text \<open>
  \<open>HttpRequest\<close> (src/http_request.cc, include/http_request.h): parsing of the request line, the
  headers, the query parameters and the body, the header lookup that ignores case, the validity
  check and the debug rendering. A \<open>std::optional\<close> is an \<open>option\<close>, a \<open>std::map\<close> the ordered map
  of \<open>Std_Map\<close>. The stream of the parser is the text that is left of it.
\<close>

section \<open>State\<close>

record http_request =
  "method" :: string
  path :: string
  base_path :: string
  http_version :: string
  body :: string
  headers :: "(string, string) std_map"
  raw_request :: string
  query_params :: "(string, string) std_map"

definition empty_request :: http_request where
  "empty_request =
     \<lparr>method = [], path = [], base_path = [], http_version = [], body = [], headers = [],
      raw_request = [], query_params = []\<rparr>"

section \<open>Helpers\<close>

definition trim_chars :: string where
  "trim_chars = [SP, TAB, CR, LF]"

definition trim :: "string \<Rightarrow> string" where
  "trim str =
     (case find_first_not_of trim_chars str of
        None \<Rightarrow> []
      | Some start \<Rightarrow>
          (case find_last_not_of trim_chars str of
             None \<Rightarrow> drop start str
           | Some end_pos \<Rightarrow> take (end_pos - start + 1) (drop start str)))"

definition to_lower :: "string \<Rightarrow> string" where
  "to_lower = map tolower"

text \<open>One \<open>key=value\<close> of the query string; a pair without \<open>=\<close> is skipped.\<close>

definition parse_query_pair :: "string \<Rightarrow> (string, string) std_map \<Rightarrow> (string, string) std_map" where
  "parse_query_pair pair m =
     (case str_find ''='' pair of
        None \<Rightarrow> m
      | Some equals_pos \<Rightarrow> map_put (take equals_pos pair) (drop (equals_pos + 1) pair) m)"

definition parse_path_and_query :: "http_request \<Rightarrow> http_request" where
  "parse_path_and_query r =
     (case str_find ''?'' (path r) of
        None \<Rightarrow> r\<lparr>base_path := path r\<rparr>
      | Some query_pos \<Rightarrow>
          (let query_string = drop (query_pos + 1) (path r)
           in r\<lparr>base_path := take query_pos (path r),
                query_params :=
                  fold parse_query_pair (getlines (CHR ''&'') query_string) (query_params r)\<rparr>))"

section \<open>Parsing\<close>

text \<open>\<open>stream >> method >> path >> version\<close>\<close>

definition read_request_line :: "string \<Rightarrow> (string \<times> string \<times> string \<times> string) option" where
  "read_request_line s =
     (case extract_word s of
        None \<Rightarrow> None
      | Some (m, s) \<Rightarrow>
          (case extract_word s of
             None \<Rightarrow> None
           | Some (p, s) \<Rightarrow>
               (case extract_word s of
                  None \<Rightarrow> None
                | Some (v, s) \<Rightarrow> Some (m, p, v, s))))"

definition strip_cr :: "string \<Rightarrow> string" where
  "strip_cr line = (if line \<noteq> [] \<and> last line = CR then butlast line else line)"

definition parse_header_line :: "string \<Rightarrow> (string, string) std_map \<Rightarrow> (string, string) std_map" where
  "parse_header_line line m =
     (case str_find '':'' line of
        None \<Rightarrow> m
      | Some colon_pos \<Rightarrow> map_put (take colon_pos line) (trim (drop (colon_pos + 1) line)) m)"

function parse_headers ::
  "(string, string) std_map \<Rightarrow> string \<Rightarrow> (string, string) std_map \<times> string" where
  "parse_headers m s =
     (case getline LF s of
        None \<Rightarrow> (m, [])
      | Some (line, rest) \<Rightarrow>
          if strip_cr line = [] then (m, rest)
          else parse_headers (parse_header_line (strip_cr line) m) rest)"
  by pat_completeness auto
termination
  by (relation "measure (\<lambda>(m, s). length s)") (auto dest: getline_shrinks)

declare parse_headers.simps [simp del]

definition parse_body :: "string \<Rightarrow> string" where
  "parse_body s =
     (let body_content = concat (map (\<lambda>line. line @ [LF]) (getlines LF s))
      in if body_content \<noteq> [] \<and> last body_content = LF then butlast body_content
         else body_content)"

definition parse :: "string \<Rightarrow> http_request" where
  "parse raw =
     (case read_request_line raw of
        None \<Rightarrow> empty_request\<lparr>raw_request := raw\<rparr>
      | Some (m, p, v, stream) \<Rightarrow>
          (let request = parse_path_and_query
                 (empty_request\<lparr>raw_request := raw, method := m, path := p, http_version := v\<rparr>);
               stream = (case getline LF stream of None \<Rightarrow> [] | Some (_, rest) \<Rightarrow> rest);
               (hs, stream) = parse_headers (headers request) stream
           in request\<lparr>headers := hs, body := parse_body stream\<rparr>))"

section \<open>Access\<close>

fun find_header :: "string \<Rightarrow> (string, string) std_map \<Rightarrow> string option" where
  "find_header name [] = None"
| "find_header name ((key, value) # m) =
     (if to_lower key = to_lower name then Some value else find_header name m)"

definition get_request_header :: "string \<Rightarrow> http_request \<Rightarrow> string option" where
  "get_request_header name r = find_header name (headers r)"

definition has_header :: "string \<Rightarrow> http_request \<Rightarrow> bool" where
  "has_header name r \<longleftrightarrow> get_request_header name r \<noteq> None"

definition add_header :: "string \<Rightarrow> string \<Rightarrow> http_request \<Rightarrow> http_request" where
  "add_header name value r = r\<lparr>headers := map_put name value (headers r)\<rparr>"

definition set_method :: "string \<Rightarrow> http_request \<Rightarrow> http_request" where
  "set_method m r = r\<lparr>method := m\<rparr>"

definition set_path :: "string \<Rightarrow> http_request \<Rightarrow> http_request" where
  "set_path p r = parse_path_and_query (r\<lparr>path := p\<rparr>)"

definition set_request_version :: "string \<Rightarrow> http_request \<Rightarrow> http_request" where
  "set_request_version v r = r\<lparr>http_version := v\<rparr>"

definition set_body :: "string \<Rightarrow> http_request \<Rightarrow> http_request" where
  "set_body b r = r\<lparr>body := b\<rparr>"

definition get_query_param :: "string \<Rightarrow> http_request \<Rightarrow> string option" where
  "get_query_param key r = map_of (query_params r) key"

definition valid_methods :: "string list" where
  "valid_methods = [''GET'', ''POST'', ''PUT'', ''DELETE'']"

definition is_valid :: "http_request \<Rightarrow> bool" where
  "is_valid r \<longleftrightarrow>
     \<not> (method r = [] \<or> path r = [] \<or> http_version r = []) \<and>
     http_version r = ''HTTP/1.1'' \<and>
     method r \<in> set valid_methods \<and>
     hd (path r) = CHR ''/'' \<and>
     \<not> contains '' '' (path r) \<and>
     str_find (CRLF @ CRLF) (raw_request r) \<noteq> None"

definition request_to_string :: "http_request \<Rightarrow> string" where
  "request_to_string r =
     ''Method: '' @ method r @ [LF] @
     ''Path: '' @ path r @ [LF] @
     ''Version: '' @ http_version r @ [LF] @
     (if headers r \<noteq> []
      then ''Headers:'' @ [LF] @
           concat (map (\<lambda>(name, value). ''  '' @ name @ '': '' @ value @ [LF]) (headers r))
      else []) @
     (if body r \<noteq> [] then ''Body:'' @ [LF] @ body r @ [LF] else [])"

section \<open>Trimming\<close>

definition ows :: "char \<Rightarrow> bool" where
  "ows c \<longleftrightarrow> c \<in> set trim_chars"

lemma trim_eq: "trim s = rev (dropWhile ows (rev (dropWhile ows s)))"
proof (cases "find_first_not_of trim_chars s")
  case None
  then have "\<forall>c \<in> set s. ows c"
    by (auto simp: find_first_not_of_eq ows_def split: if_splits)
  with None show ?thesis by (simp add: trim_def dropWhile_eq_Nil_conv [THEN iffD2])
next
  case (Some i)
  then obtain c where "c \<in> set s" "c \<notin> set trim_chars"
    by (auto simp: find_first_not_of_eq split: if_splits)
  then have "find_last_not_of trim_chars s \<noteq> None"
    by (auto simp: find_last_not_of_def find_first_not_of_eq)
  then obtain j where "find_last_not_of trim_chars s = Some j" by blast
  with Some find_not_of_between [OF Some this] show ?thesis
    by (simp add: trim_def ows_def [abs_def])
qed

lemma trim_id: "s = [] \<or> \<not> ows (hd s) \<and> \<not> ows (last s) \<Longrightarrow> trim s = s"
proof (cases "s = []")
  case False
  assume "s = [] \<or> \<not> ows (hd s) \<and> \<not> ows (last s)"
  with False have "dropWhile ows s = s" "dropWhile ows (rev s) = rev s"
    by (cases s, simp, simp, cases s rule: rev_cases, simp, simp)
  then show ?thesis by (simp add: trim_eq)
qed (simp add: trim_eq)

lemma trim_split: "\<exists>a b. s = a @ trim s @ b \<and> list_all ows a \<and> list_all ows b"
proof (intro exI conjI)
  let ?d = "dropWhile ows s"
  show "s = takeWhile ows s @ trim s @ rev (takeWhile ows (rev ?d))"
    unfolding trim_eq by (metis rev_append rev_rev_ident takeWhile_dropWhile_id)
qed (auto simp: list_all_iff dest: set_takeWhileD)

lemma trim_ends: "trim s = [] \<or> \<not> ows (hd (trim s)) \<and> \<not> ows (last (trim s))"
proof (cases "trim s = []")
  case False
  let ?d = "dropWhile ows s"
  have "dropWhile ows (rev ?d) \<noteq> []" using False by (simp add: trim_eq)
  then have "\<not> ows (last (trim s))"
    using hd_dropWhile [of ows "rev ?d"] by (simp add: trim_eq last_rev)
  moreover obtain b where b: "?d = trim s @ b"
    by (metis trim_eq rev_append rev_rev_ident takeWhile_dropWhile_id)
  have "hd (trim s) = hd ?d" using False by (subst b) simp
  moreover have "?d \<noteq> []" using False b by auto
  ultimately show ?thesis using hd_dropWhile [of ows s] by simp
qed simp

lemma trim_trim [simp]: "trim (trim s) = trim s"
  using trim_ends [of s] trim_id [of "trim s"] by blast

section \<open>The parser on a well-formed message\<close>

lemma read_request_line_words:
  assumes "m \<noteq> []" "p \<noteq> []" "v \<noteq> []"
    and "\<forall>c \<in> set m \<union> set p \<union> set v. \<not> isspace c"
  shows "read_request_line (m @ '' '' @ p @ '' '' @ v @ CR # r) = Some (m, p, v, CR # r)"
proof -
  have sp: "isspace SP" "isspace CR" by (simp_all add: isspace_def)
  have "extract_word (m @ SP # p @ SP # v @ CR # r) = Some (m, SP # p @ SP # v @ CR # r)"
    using assms sp extract_word_word [of m SP "[]"] by simp
  moreover have "extract_word (SP # p @ SP # v @ CR # r) = Some (p, SP # v @ CR # r)"
    using assms sp extract_word_word [of p SP "[SP]"] by simp
  moreover have "extract_word (SP # v @ CR # r) = Some (v, CR # r)"
    using assms sp extract_word_word [of v CR "[SP]"] by simp
  ultimately show ?thesis by (simp add: read_request_line_def)
qed

lemma strip_cr_snoc [simp]: "strip_cr (l @ [CR]) = l"
  by (simp add: strip_cr_def)

lemma parse_headers_line:
  assumes "head_line l"
  shows "parse_headers m (l @ CR # LF # r) = parse_headers (parse_header_line l m) r"
proof -
  have "getline LF ((l @ [CR]) @ LF # r) = Some (l @ [CR], r)"
    using assms by (intro getline_line) (simp add: head_line_def)
  then show ?thesis
    using assms by (subst parse_headers.simps) (simp add: head_line_def)
qed

lemma parse_headers_end: "parse_headers m (CR # LF # r) = (m, r)"
proof -
  have "getline LF ([CR] @ LF # r) = Some ([CR], r)" by (intro getline_line) simp
  then show ?thesis by (subst parse_headers.simps) (simp add: strip_cr_def)
qed

lemma parse_headers_message:
  "\<forall>l \<in> set ls. head_line l \<Longrightarrow>
     parse_headers m (http_message ls b) = (fold parse_header_line ls m, b)"
proof (induction ls arbitrary: m)
  case Nil
  show ?case by (simp add: http_message_def parse_headers_end)
next
  case (Cons l ls)
  have "http_message (l # ls) b = l @ CR # LF # http_message ls b"
    by (simp add: http_message_def)
  with Cons show ?case by (simp add: parse_headers_line)
qed

text \<open>The body loses one trailing line feed, whether or not the client meant it.\<close>

definition chomp :: "string \<Rightarrow> string" where
  "chomp s = (if s \<noteq> [] \<and> last s = LF then butlast s else s)"

lemma concat_getlines:
  "concat (map (\<lambda>l. l @ [d]) (getlines d s)) = (if s = [] \<or> last s = d then s else s @ [d])"
proof (induction d s rule: getlines.induct)
  case (1 d s)
  show ?case
  proof (cases "d \<in> set s")
    case False
    then show ?thesis
      by (cases "s = []") (auto simp: getlines_last)
  next
    case True
    then obtain l r where s: "s = l @ d # r" "d \<notin> set l"
      using split_at_first by fast
    then have "getline d s = Some (l, r)" by simp
    with "1.IH" [OF this refl] s show ?thesis by auto
  qed
qed

lemma parse_body_chomp: "parse_body s = chomp s"
  by (auto simp: parse_body_def chomp_def concat_getlines)

text \<open>A header as a client writes it: a name, a colon, and a value with any blanks around it.\<close>

definition header_field :: "string \<times> string \<Rightarrow> string" where
  "header_field = (\<lambda>(name, value). name @ '':'' @ value)"

definition field_ok :: "string \<times> string \<Rightarrow> bool" where
  "field_ok = (\<lambda>(name, value).
     CHR '':'' \<notin> set name \<and> list_all (\<lambda>c. c \<noteq> CR \<and> c \<noteq> LF) (name @ value))"

definition request_word :: "string \<Rightarrow> bool" where
  "request_word w \<longleftrightarrow> w \<noteq> [] \<and> list_all (\<lambda>c. \<not> isspace c) w"

definition request_line :: "string \<Rightarrow> string \<Rightarrow> string \<Rightarrow> string" where
  "request_line m p v = m @ '' '' @ p @ '' '' @ v"

lemma parse_header_line_field:
  "field_ok (n, v) \<Longrightarrow> parse_header_line (header_field (n, v)) m = map_put n (trim v) m"
  by (simp add: parse_header_line_def header_field_def field_ok_def)

lemma parse_header_fields:
  "list_all field_ok hs \<Longrightarrow>
     fold parse_header_line (map header_field hs) m = map_put_all (map (\<lambda>(n, v). (n, trim v)) hs) m"
  by (induction hs arbitrary: m) (auto simp: parse_header_line_field map_put_all_def)

lemma head_line_field: "field_ok h \<Longrightarrow> head_line (header_field h)"
  by (auto simp: field_ok_def header_field_def head_line_def list_all_iff)

lemma request_word_head: "request_word w \<Longrightarrow> CR \<notin> set w \<and> LF \<notin> set w"
  by (auto simp: request_word_def list_all_iff isspace_def)

lemma head_line_request:
  "request_word m \<Longrightarrow> request_word p \<Longrightarrow> request_word v \<Longrightarrow> head_line (request_line m p v)"
  using request_word_head [of m] request_word_head [of p] request_word_head [of v]
  by (auto simp: request_line_def head_line_def)

lemma parse_path_and_query_keeps [simp]:
  "method (parse_path_and_query r) = method r"
  "path (parse_path_and_query r) = path r"
  "http_version (parse_path_and_query r) = http_version r"
  "headers (parse_path_and_query r) = headers r"
  "body (parse_path_and_query r) = body r"
  "raw_request (parse_path_and_query r) = raw_request r"
  by (simp_all add: parse_path_and_query_def Let_def split: option.split)

lemma parse_message:
  assumes "request_word m" "request_word p" "request_word v" "list_all field_ok hs"
    and raw_def: "raw = http_message (request_line m p v # map header_field hs) b"
  shows "parse raw =
    (parse_path_and_query (empty_request\<lparr>raw_request := raw, method := m, path := p, http_version := v\<rparr>))
      \<lparr>headers := map_put_all (map (\<lambda>(n, v). (n, trim v)) hs) [], body := chomp b\<rparr>"
proof -
  let ?rest = "http_message (map header_field hs) b"
  have "raw = m @ '' '' @ p @ '' '' @ v @ CR # LF # ?rest"
    by (simp add: raw_def http_message_def request_line_def)
  then have "read_request_line raw = Some (m, p, v, CR # LF # ?rest)"
    using assms(1-3) read_request_line_words [of m p v "LF # ?rest"]
    by (auto simp: request_word_def list_all_iff)
  moreover have "getline LF ([CR] @ LF # ?rest) = Some ([CR], ?rest)"
    by (intro getline_line) simp
  moreover have "\<forall>l \<in> set (map header_field hs). head_line l"
    using assms(4) head_line_field by (auto simp: list_all_iff)
  ultimately show ?thesis
    using parse_header_fields [OF assms(4)]
    by (simp add: parse_def parse_headers_message parse_body_chomp empty_request_def)
qed

text \<open>
  C28: parsing a well-formed request gives back what the client wrote: the method, the target and
  the version of the request line, one entry per header name with the last value written for it,
  trimmed, the raw text, and the body up to one trailing line feed, which is lost.
\<close>

theorem parse_inverts_message:
  assumes "request_word m" "request_word p" "request_word v" "list_all field_ok hs"
    and "raw = http_message (request_line m p v # map header_field hs) b"
  shows "method (parse raw) = m \<and> path (parse raw) = p \<and> http_version (parse raw) = v \<and>
    map_ok (headers (parse raw)) \<and>
    (\<forall>n. map_of (headers (parse raw)) n = map_option trim (map_of (rev hs) n)) \<and>
    body (parse raw) = chomp b \<and> raw_request (parse raw) = raw"
proof -
  have "map_of (rev (map (\<lambda>(n, v). (n, trim v)) hs)) n = map_option trim (map_of (rev hs) n)" for n
    by (metis map_of_map rev_map comp_apply)
  then show ?thesis
    using parse_message [OF assms]
    by (simp add: map_ok_put_all map_of_put_all)
qed

theorem parse_inverts_message_witness:
  "\<exists>raw. raw = http_message
       (request_line ''GET'' ''/a?x=1'' ''HTTP/1.1'' # map header_field [(''A'', '' b '')]) [LF] \<and>
     method (parse raw) = ''GET'' \<and> body (parse raw) = chomp [LF]"
proof -
  have "method (parse raw) = ''GET'' \<and> path (parse raw) = ''/a?x=1'' \<and>
      http_version (parse raw) = ''HTTP/1.1'' \<and> map_ok (headers (parse raw)) \<and>
      (\<forall>n. map_of (headers (parse raw)) n = map_option trim (map_of (rev [(''A'', '' b '')]) n)) \<and>
      body (parse raw) = chomp [LF] \<and> raw_request (parse raw) = raw"
    if "raw = http_message
       (request_line ''GET'' ''/a?x=1'' ''HTTP/1.1'' # map header_field [(''A'', '' b '')]) [LF]" for raw
    by (rule parse_inverts_message [OF _ _ _ _ that]) code_simp+
  then show ?thesis by blast
qed

section \<open>The invariant of a request\<close>

definition request_ok :: "http_request \<Rightarrow> bool" where
  "request_ok r \<longleftrightarrow> map_ok (headers r) \<and> map_ok (query_params r)"

lemma map_ok_query_pair: "map_ok m \<Longrightarrow> map_ok (parse_query_pair pair m)"
  by (simp add: parse_query_pair_def split: option.split)

lemma map_ok_query_pairs: "map_ok m \<Longrightarrow> map_ok (fold parse_query_pair ps m)"
  by (induction ps arbitrary: m) (simp_all add: map_ok_query_pair)

lemma request_ok_path_and_query: "request_ok r \<Longrightarrow> request_ok (parse_path_and_query r)"
  by (simp add: request_ok_def parse_path_and_query_def map_ok_query_pairs split: option.split)

lemma map_ok_parse_header_line: "map_ok m \<Longrightarrow> map_ok (parse_header_line l m)"
  by (simp add: parse_header_line_def split: option.split)

lemma map_ok_parse_headers: "map_ok m \<Longrightarrow> map_ok (fst (parse_headers m s))"
proof (induction m s rule: parse_headers.induct)
  case (1 m s)
  show ?case
  proof (cases "getline LF s")
    case None
    with "1.prems" show ?thesis by (simp add: parse_headers.simps [of m s])
  next
    case (Some p)
    with 1 show ?thesis
      by (cases p) (simp add: parse_headers.simps [of m s] map_ok_parse_header_line)
  qed
qed

lemma request_ok_empty: "request_ok empty_request"
  by (simp add: request_ok_def empty_request_def)

lemma request_ok_parse: "request_ok (parse raw)"
proof (cases "read_request_line raw")
  case None
  then show ?thesis by (simp add: parse_def request_ok_def empty_request_def)
next
  case (Some q)
  obtain m p v s where q: "q = (m, p, v, s)" by (cases q)
  let ?r = "parse_path_and_query
    (empty_request\<lparr>raw_request := raw, method := m, path := p, http_version := v\<rparr>)"
  let ?s = "case getline LF s of None \<Rightarrow> [] | Some (_, rest) \<Rightarrow> rest"
  have r: "request_ok ?r"
    by (intro request_ok_path_and_query) (simp add: request_ok_def empty_request_def)
  then have "map_ok (fst (parse_headers (headers ?r) ?s))"
    by (intro map_ok_parse_headers) (simp add: request_ok_def)
  with Some q r show ?thesis
    by (simp add: parse_def Let_def request_ok_def case_prod_unfold)
qed

section \<open>Query parameters\<close>

fun query_string :: "(string \<times> string) list \<Rightarrow> string" where
  "query_string [] = []"
| "query_string [(k, v)] = k @ ''='' @ v"
| "query_string ((k, v) # kv # kvs) = k @ ''='' @ v @ ''&'' @ query_string (kv # kvs)"

definition query_ok :: "string \<times> string \<Rightarrow> bool" where
  "query_ok = (\<lambda>(k, v). CHR ''='' \<notin> set k \<and> CHR ''&'' \<notin> set (k @ v))"

lemma getlines_query:
  "list_all query_ok kvs \<Longrightarrow>
     getlines (CHR ''&'') (query_string kvs) = map (\<lambda>(k, v). k @ ''='' @ v) kvs"
proof (induction kvs rule: query_string.induct)
  case (2 k v)
  then show ?case by (simp add: query_ok_def getlines_last)
next
  case (3 k v kv kvs)
  have "getlines (CHR ''&'') ((k @ ''='' @ v) @ CHR ''&'' # query_string (kv # kvs)) =
        (k @ ''='' @ v) # getlines (CHR ''&'') (query_string (kv # kvs))"
    using "3.prems" by (intro getlines_line) (simp add: query_ok_def)
  with 3 show ?case by (simp add: case_prod_unfold)
qed simp

lemma parse_query_pair_ok: "query_ok (k, v) \<Longrightarrow> parse_query_pair (k @ ''='' @ v) m = map_put k v m"
  by (simp add: parse_query_pair_def query_ok_def)

lemma parse_query_pairs_ok:
  "list_all query_ok kvs \<Longrightarrow>
     fold parse_query_pair (map (\<lambda>(k, v). k @ ''='' @ v) kvs) m = map_put_all kvs m"
proof (induction kvs arbitrary: m)
  case (Cons kv kvs)
  obtain k v where "kv = (k, v)" by (cases kv)
  with Cons parse_query_pair_ok [of k v m] show ?case by (simp add: map_put_all_def)
qed (simp add: map_put_all_def)

lemma set_path_with_query:
  assumes "CHR ''?'' \<notin> set base" "list_all query_ok kvs"
  shows "set_path (base @ ''?'' @ query_string kvs) r =
    r\<lparr>path := base @ ''?'' @ query_string kvs, base_path := base,
      query_params := map_put_all kvs (query_params r)\<rparr>"
proof -
  have "str_find ''?'' (base @ ''?'' @ query_string kvs) = Some (length base)"
    using str_find_char [OF assms(1), of "query_string kvs"] by simp
  then show ?thesis
    using getlines_query [OF assms(2)] parse_query_pairs_ok [OF assms(2)]
    by (simp add: set_path_def parse_path_and_query_def)
qed

text \<open>
  \<open>set_path\<close> splits the target at its first question mark and stores every \<open>key=value\<close> of the
  query, the last value for a key winning. It does not clear the parameters of the previous path: a
  key that the new query does not mention still answers with its old value.
\<close>

theorem set_path_query:
  assumes "request_ok r" "CHR ''?'' \<notin> set base" "list_all query_ok kvs"
  shows "base_path (set_path (base @ ''?'' @ query_string kvs) r) = base \<and>
    (\<forall>k. get_query_param k (set_path (base @ ''?'' @ query_string kvs) r) =
       (case map_of (rev kvs) k of Some v \<Rightarrow> Some v | None \<Rightarrow> get_query_param k r))"
  using assms(1) unfolding set_path_with_query [OF assms(2,3)]
  by (simp add: get_query_param_def request_ok_def map_of_put_all map_add_def split: option.split)

theorem set_path_query_witness:
  "\<exists>r. get_query_param ''b'' r = Some ''2'' \<and>
     base_path (set_path (''/x'' @ ''?'' @ query_string [(''a'', ''1'')]) r) = ''/x'' \<and>
     (\<forall>k. get_query_param k (set_path (''/x'' @ ''?'' @ query_string [(''a'', ''1'')]) r) =
       (case map_of (rev [(''a'', ''1'')]) k of Some v \<Rightarrow> Some v | None \<Rightarrow> get_query_param k r))"
proof (intro exI conjI)
  let ?r = "set_path ''/y?b=2'' empty_request"
  show "get_query_param ''b'' ?r = Some ''2''" by code_simp
  have ok: "request_ok ?r" by code_simp
  from set_path_query [OF ok, of "''/x''" "[(''a'', ''1'')]"]
  show "base_path (set_path (''/x'' @ ''?'' @ query_string [(''a'', ''1'')]) ?r) = ''/x''"
    and "\<forall>k. get_query_param k (set_path (''/x'' @ ''?'' @ query_string [(''a'', ''1'')]) ?r) =
       (case map_of (rev [(''a'', ''1'')]) k of Some v \<Rightarrow> Some v | None \<Rightarrow> get_query_param k ?r)"
    by (simp_all add: query_ok_def)
qed

section \<open>Header lookup\<close>

lemma find_header_None: "find_header n m = None \<longleftrightarrow> (\<forall>(k, v) \<in> set m. to_lower k \<noteq> to_lower n)"
  by (induction n m rule: find_header.induct) auto

lemma find_header_Some:
  "map_ok m \<Longrightarrow> find_header n m = Some v \<longleftrightarrow>
     (\<exists>k. map_of m k = Some v \<and> to_lower k = to_lower n \<and>
       (\<forall>k' < k. to_lower k' = to_lower n \<longrightarrow> map_of m k' = None))"
proof (induction n m rule: find_header.induct)
  case (2 n k1 v1 m)
  have m: "map_ok m" and above: "\<forall>k \<in> fst ` set m. k1 < k"
    using "2.prems" by (simp_all add: map_ok_def)
  have k1: "map_of m k1 = None"
    using above by (auto simp: map_of_eq_None_iff)
  have below: "map_of m k = Some w \<Longrightarrow> k1 < k" for k w
    using above by (force dest: map_of_SomeD)
  show ?case
  proof (cases "to_lower k1 = to_lower n")
    case True
    then show ?thesis
      using below by (auto simp: k1) (metis map_of_eq_None_iff above not_less_iff_gr_or_eq)+
  next
    case False
    with "2.IH" [OF False m] show ?thesis
      using below by (auto simp: k1 split: if_splits) metis+
  qed
qed simp

text \<open>
  The case-insensitive header lookup answers with the value of a header whose name agrees with
  the one asked for up to case and, when several differ only in case, of the one that comes first
  in byte order; it answers nothing only when no header agrees.
\<close>

theorem get_request_header_spec:
  assumes "request_ok r"
  shows "(\<forall>v. get_request_header n r = Some v \<longleftrightarrow>
      (\<exists>k. map_of (headers r) k = Some v \<and> to_lower k = to_lower n \<and>
        (\<forall>k' < k. to_lower k' = to_lower n \<longrightarrow> map_of (headers r) k' = None))) \<and>
    (has_header n r \<longleftrightarrow> (\<exists>k. map_of (headers r) k \<noteq> None \<and> to_lower k = to_lower n))"
proof -
  have ok: "map_ok (headers r)" using assms by (simp add: request_ok_def)
  have "has_header n r \<longleftrightarrow> (\<exists>(k, v) \<in> set (headers r). to_lower k = to_lower n)"
    by (auto simp: has_header_def get_request_header_def find_header_None)
  also have "\<dots> \<longleftrightarrow> (\<exists>k. map_of (headers r) k \<noteq> None \<and> to_lower k = to_lower n)"
    using map_ok_lookup [OF ok] by (simp add: case_prod_unfold Bex_def)
  finally show ?thesis
    by (simp add: get_request_header_def find_header_Some [OF ok])
qed

theorem get_request_header_spec_witness:
  "\<exists>r. get_request_header ''content-length'' r = Some ''7'' \<and>
    (has_header ''content-length'' r \<longleftrightarrow>
      (\<exists>k. map_of (headers r) k \<noteq> None \<and> to_lower k = to_lower ''content-length''))"
proof (intro exI conjI)
  let ?r = "add_header ''Content-Length'' ''7'' (add_header ''content-length'' ''8'' empty_request)"
  show "get_request_header ''content-length'' ?r = Some ''7''" by code_simp
  have "request_ok ?r" by code_simp
  from get_request_header_spec [OF this, of "''content-length''"]
  show "has_header ''content-length'' ?r \<longleftrightarrow>
      (\<exists>k. map_of (headers ?r) k \<noteq> None \<and> to_lower k = to_lower ''content-length'')"
    by (rule conjunct2)
qed

section \<open>Validity\<close>

lemma read_request_line_word:
  assumes "read_request_line s = Some (m, p, v, r)"
  shows "request_word m \<and> request_word p \<and> request_word v"
  using assms extract_word_Some
  by (fastforce simp: read_request_line_def request_word_def list_all_iff split: option.splits)

lemma parse_fields:
  "read_request_line raw = Some (m, p, v, s) \<Longrightarrow>
     method (parse raw) = m \<and> path (parse raw) = p \<and> http_version (parse raw) = v \<and>
     raw_request (parse raw) = raw"
  by (simp add: parse_def Let_def case_prod_unfold)

lemma request_word_no_space: "request_word p \<Longrightarrow> \<not> contains '' '' p"
  by (auto simp: contains_def request_word_def list_all_iff isspace_def)

text \<open>
  A parsed request is valid exactly when its first three words are one of the four methods, a
  target that starts with a slash and the version \<open>HTTP/1.1\<close>, and the text holds an empty line in
  the CR LF form. The check for spaces in the path can never fail on a parsed request.
\<close>

theorem is_valid_parse:
  "is_valid (parse raw) \<longleftrightarrow>
     contains end_of_head raw \<and>
     (\<exists>m p rest. read_request_line raw = Some (m, p, ''HTTP/1.1'', rest) \<and>
        m \<in> {''GET'', ''POST'', ''PUT'', ''DELETE''} \<and> hd p = CHR ''/'')"
proof (cases "read_request_line raw")
  case None
  then show ?thesis by (simp add: parse_def is_valid_def empty_request_def)
next
  case (Some q)
  obtain m p v s where q: "read_request_line raw = Some (m, p, v, s)"
    using Some by (cases q) simp
  show ?thesis
    using parse_fields [OF q] read_request_line_word [OF q] request_word_no_space [of p]
    by (auto simp: q is_valid_def valid_methods_def contains_def end_of_head_def request_word_def)
qed

end
