(* ===== verification/Http_Helper.thy ===== *)
theory Http_Helper
  imports Http_Request
begin

text \<open>
  src/http_helper.cc, include/http_helper.h: the test whether a buffer holds a complete head, and
  the classification of malformed buffers, with what they imply about one another and about the
  validity check of the parser.
\<close>

datatype malformed_type = Empty | NoHeaderTerminator | NoneMalformed

definition detect_http_request :: "string \<Rightarrow> bool" where
  "detect_http_request buffer \<longleftrightarrow>
     str_find (CRLF @ CRLF) buffer \<noteq> None \<or> str_find [LF, LF] buffer \<noteq> None"

definition check_malformed_request :: "string \<Rightarrow> malformed_type" where
  "check_malformed_request buffer =
     (if buffer = [] then Empty
      else if str_find (CRLF @ CRLF) buffer = None then NoHeaderTerminator
      else NoneMalformed)"

lemma check_malformed_None_iff [simp]:
  "check_malformed_request b = NoneMalformed \<longleftrightarrow> contains end_of_head b"
  by (auto simp: check_malformed_request_def contains_def end_of_head_def)

lemma not_malformed_detected: "check_malformed_request b = NoneMalformed \<Longrightarrow> detect_http_request b"
  by (simp add: detect_http_request_def contains_def end_of_head_def)

lemma check_malformed_append:
  "check_malformed_request b = NoneMalformed \<Longrightarrow> check_malformed_request (b @ c) = NoneMalformed"
  by (simp add: contains_append)

lemma is_valid_end_of_head: "is_valid (parse b) \<Longrightarrow> contains end_of_head b"
  by (cases "read_request_line b")
    (auto simp: parse_def is_valid_def empty_request_def contains_def end_of_head_def
      Let_def case_prod_unfold split: option.splits)

text \<open>
  The three tests agree in one direction only. A buffer whose parse is valid is not malformed,
  a buffer that is not malformed is detected as a request, and more bytes never make a well-formed
  buffer malformed. The converses fail: bare line feeds are detected yet malformed.
\<close>

theorem malformed_detect_valid:
  "(is_valid (parse b) \<longrightarrow> check_malformed_request b = NoneMalformed) \<and>
   (check_malformed_request b = NoneMalformed \<longrightarrow>
      detect_http_request b \<and> check_malformed_request (b @ c) = NoneMalformed) \<and>
   detect_http_request [LF, LF] \<and> check_malformed_request [LF, LF] = NoHeaderTerminator"
proof -
  have "detect_http_request [LF, LF]" "check_malformed_request [LF, LF] = NoHeaderTerminator"
    by (code_simp, code_simp)
  then show ?thesis
    using is_valid_end_of_head not_malformed_detected check_malformed_append by simp
qed

theorem malformed_detect_valid_witness:
  "is_valid (parse (''GET / HTTP/1.1'' @ end_of_head)) \<and>
   check_malformed_request (''GET / HTTP/1.1'' @ end_of_head) = NoneMalformed"
proof
  show "is_valid (parse (''GET / HTTP/1.1'' @ end_of_head))" by code_simp
  then show "check_malformed_request (''GET / HTTP/1.1'' @ end_of_head) = NoneMalformed"
    using malformed_detect_valid [of "''GET / HTTP/1.1'' @ end_of_head" "[]"] by blast
qed

end
