(* ===== verification/Logger.thy ===== *)
theory Logger
  imports Std_Numeric
begin

text \<open>
  \<open>Logger\<close> (src/logger.cc, include/logger.h): the records it hands to Boost.Log, a severity and the
  text; the calls by which its constructor sets up the sinks, in order; and the static pointer behind
  \<open>getLogger\<close>. What Boost.Log does with a record (filters, files, formats, rotation) is outside the
  repository: a set-up call is a value with its arguments. The structures of include/request.h and
  include/header.h are used only by the request trace.
\<close>

datatype severity_level = trace | debug | info | warning | error | fatal

text \<open>The levels of Boost.Log are ordered; a filter keeps those above a threshold.\<close>

fun severity_rank :: "severity_level \<Rightarrow> nat" where
  "severity_rank trace = 0"
| "severity_rank debug = 1"
| "severity_rank info = 2"
| "severity_rank warning = 3"
| "severity_rank error = 4"
| "severity_rank fatal = 5"

lemma severity_rank_inject: "severity_rank a = severity_rank b \<longleftrightarrow> a = b"
  by (cases a; cases b) simp_all

instantiation severity_level :: linorder
begin

definition less_eq_severity_level :: "severity_level \<Rightarrow> severity_level \<Rightarrow> bool" where
  "less_eq_severity_level a b \<longleftrightarrow> severity_rank a \<le> severity_rank b"

definition less_severity_level :: "severity_level \<Rightarrow> severity_level \<Rightarrow> bool" where
  "less_severity_level a b \<longleftrightarrow> severity_rank a < severity_rank b"

instance
  by standard
    (auto simp: less_eq_severity_level_def less_severity_level_def severity_rank_inject [symmetric])

end

type_synonym log_record = "severity_level \<times> string"

record request_header =
  header_name :: string
  header_value :: string

record traced_request =
  traced_method :: string
  uri :: string
  http_version_major :: int
  http_version_minor :: int
  traced_headers :: "request_header list"

definition logServerInitialization :: log_record where
  "logServerInitialization = (trace, ''Trace: '' @ ''Server has been initialized'')"

definition logMachineParsable :: "string \<Rightarrow> log_record" where
  "logMachineParsable info_message = (info, info_message)"

definition logTraceFile :: "string \<Rightarrow> log_record" where
  "logTraceFile trace_message = (trace, ''Trace: '' @ trace_message)"

definition logErrorFile :: "string \<Rightarrow> log_record" where
  "logErrorFile error_message = (error, ''Error: '' @ error_message)"

definition logDebugFile :: "string \<Rightarrow> log_record" where
  "logDebugFile debug_message = (debug, ''Debug: '' @ debug_message)"

definition logWarningFile :: "string \<Rightarrow> log_record" where
  "logWarningFile warning_message = (warning, ''Warning: '' @ warning_message)"

text \<open>The address of the peer is the socket's to give.\<close>

definition logTraceHTTPrequest :: "traced_request \<Rightarrow> string \<Rightarrow> log_record" where
  "logTraceHTTPrequest http_request sender =
     (trace, ''Trace: '' @ traced_method http_request @ '' '' @ uri http_request @ '' HTTP '' @
        to_string_int (http_version_major http_request) @ ''.'' @
        to_string_int (http_version_minor http_request) @ '' Sender IP: '' @ sender)"

definition logTrace :: log_record where
  "logTrace = (trace, ''A trace severity message'')"

definition logDebug :: log_record where
  "logDebug = (debug, ''A debug severity message'')"

definition logWarning :: log_record where
  "logWarning = (warning, ''A warning severity message'')"

definition logError :: log_record where
  "logError = (error, ''An error severity message'')"

definition logFatal :: log_record where
  "logFatal = (fatal, ''A fatal severity message'')"

section \<open>The sinks\<close>

record file_log =
  file_name_pattern :: string
  rotation_size :: int
  rotation_at :: "int \<times> int \<times> int"
  file_format :: string
  auto_flush :: bool

datatype log_setup =
    Add_file_log file_log
  | Add_common_attributes
  | Open_record
  | Add_console_log string

definition init :: "log_setup list" where
  "init = [Add_file_log
     \<lparr>file_name_pattern = ''../log/SYSLOG_%N.log'', rotation_size = 10 * 1024 * 1024,
      rotation_at = (0, 0, 0), file_format = ''[%TimeStamp%]:[%ThreadID%]:%Message%'',
      auto_flush = True\<rparr>]"

definition make_logger :: "log_setup list" where
  "make_logger = init @ [Add_common_attributes, Open_record, Add_console_log ''>> %Message%'']"

fun is_sink :: "log_setup \<Rightarrow> bool" where
  "is_sink (Add_file_log f) = True"
| "is_sink (Add_console_log f) = True"
| "is_sink _ = False"

section \<open>The one logger\<close>

text \<open>
  The static pointer, the number of objects made so far (an object is named by its number) and what
  the process has told Boost.Log. \<open>getLogger\<close> tests the pointer and then makes the object; a thread
  can be interrupted in between, so a call is two steps, and a schedule says which thread is next.
\<close>

record logging =
  logger :: "nat option"
  made :: nat
  log_setup :: "log_setup list"

definition no_logger :: logging where
  "no_logger = \<lparr>logger = None, made = 0, log_setup = []\<rparr>"

datatype get_progress = Testing | Making | Got nat

fun get_step :: "get_progress \<Rightarrow> logging \<Rightarrow> get_progress \<times> logging" where
  "get_step Testing l = (case logger l of Some p \<Rightarrow> (Got p, l) | None \<Rightarrow> (Making, l))"
| "get_step Making l =
     (Got (made l), l\<lparr>logger := Some (made l), made := made l + 1,
                    log_setup := log_setup l @ make_logger\<rparr>)"
| "get_step (Got p) l = (Got p, l)"

text \<open>A call that is not interrupted.\<close>

definition getLogger :: "logging \<Rightarrow> nat \<times> logging" where
  "getLogger l =
     (case logger l of
        Some p \<Rightarrow> (p, l)
      | None \<Rightarrow> (made l, l\<lparr>logger := Some (made l), made := made l + 1,
                          log_setup := log_setup l @ make_logger\<rparr>))"

fun run_gets :: "nat list \<Rightarrow> get_progress list \<Rightarrow> logging \<Rightarrow> get_progress list \<times> logging" where
  "run_gets [] ps l = (ps, l)"
| "run_gets (k # ks) ps l =
     (if k < length ps
      then (let (p, l) = get_step (ps ! k) l in run_gets ks (ps[k := p]) l)
      else run_gets ks ps l)"

lemma getLogger_steps:
  "getLogger l = (p, l') \<Longrightarrow>
     (let (q, l1) = get_step Testing l in get_step q l1) = (Got p, l')"
  by (auto simp: getLogger_def split: option.splits)

lemma run_gets_set:
  "logger l = Some p \<Longrightarrow> set ps \<subseteq> {Testing, Got p} \<Longrightarrow>
     \<exists>ps'. run_gets ks ps l = (ps', l) \<and> set ps' \<subseteq> {Testing, Got p} \<and> length ps' = length ps"
proof (induction ks arbitrary: ps)
  case (Cons k ks)
  show ?case
  proof (cases "k < length ps")
    case True
    then have "ps ! k \<in> {Testing, Got p}" using Cons.prems(2) nth_mem by blast
    then have "get_step (ps ! k) l = (Got p, l)" using Cons.prems(1) by auto
    moreover have "set (ps[k := Got p]) \<subseteq> {Testing, Got p}"
      using Cons.prems(2) set_update_subset_insert [of ps k "Got p"] by auto
    ultimately show ?thesis
      using True Cons.IH [OF Cons.prems(1), of "ps[k := Got p]"] by simp
  next
    case False
    with Cons show ?thesis by simp
  qed
qed simp

text \<open>
  There is one logger. \<open>main\<close> calls \<open>getLogger\<close> before it starts any thread; after that, however
  the calls of any number of threads interleave, each of them gets the same object, the constructor
  has run exactly once, and the process has one file and one console sink. The order matters:
  had two threads made the first calls, both could see the null pointer, and then there are two loggers
  and every line is written twice.
\<close>

theorem one_logger:
  "let (p, l) = getLogger no_logger; (ps, l') = run_gets schedule (replicate n Testing) l
   in l' = l \<and> set ps \<subseteq> {Testing, Got p} \<and> made l' = 1 \<and> log_setup l' = make_logger \<and>
      length (filter is_sink (log_setup l')) = 2 \<and>
      run_gets [0, 1, 0, 1] [Testing, Testing] no_logger =
        ([Got 0, Got 1], \<lparr>logger = Some 1, made = 2, log_setup = make_logger @ make_logger\<rparr>)"
proof -
  let ?l = "\<lparr>logger = Some 0, made = 1, log_setup = make_logger\<rparr>"
  have first: "getLogger no_logger = (0, ?l)" by (simp add: getLogger_def no_logger_def)
  have "set (replicate n Testing) \<subseteq> {Testing, Got 0}" by auto
  then have "\<exists>ps'. run_gets schedule (replicate n Testing) ?l = (ps', ?l) \<and>
      set ps' \<subseteq> {Testing, Got 0} \<and> length ps' = length (replicate n Testing)"
    by (intro run_gets_set) simp_all
  then obtain ps' where "run_gets schedule (replicate n Testing) ?l = (ps', ?l)"
      "set ps' \<subseteq> {Testing, Got 0}"
    by blast
  moreover have "length (filter is_sink make_logger) = 2" by code_simp
  moreover have "run_gets [0, 1, 0, 1] [Testing, Testing] no_logger =
        ([Got 0, Got 1], \<lparr>logger = Some 1, made = 2, log_setup = make_logger @ make_logger\<rparr>)"
    by (simp add: no_logger_def)
  ultimately show ?thesis by (simp add: first)
qed

end
