(* ===== verification/Filesystem_Interface.thy ===== *)
theory Filesystem_Interface
  imports Prelude
begin

text \<open>
  include/filesystem_interface.h. The abstract class is a record of its virtual functions over a
  store type of the implementation; calls that change the store return it. \<open>read_entity\<close> and
  \<open>next_entity_id\<close> are the two that implementations may raise from. The locale states what the
  CRUD handler relies on, against an abstract view of the store: a partial map from ids to data
  for each entity name.
\<close>

record entity =
  name :: string

definition make_name :: "entity \<Rightarrow> string \<Rightarrow> string" where
  "make_name e i = name e @ ''/'' @ i"

record 'fs filesystem_interface =
  entity_exists :: "'fs \<Rightarrow> entity \<Rightarrow> string \<Rightarrow> bool"
  write_entity :: "entity \<Rightarrow> string \<Rightarrow> string \<Rightarrow> 'fs \<Rightarrow> bool \<times> 'fs"
  delete_entity :: "entity \<Rightarrow> string \<Rightarrow> 'fs \<Rightarrow> bool \<times> 'fs"
  read_entity :: "'fs \<Rightarrow> entity \<Rightarrow> string \<Rightarrow> string outcome"
  list_entity_ids :: "'fs \<Rightarrow> entity \<Rightarrow> string list"
  next_entity_id :: "'fs \<Rightarrow> entity \<Rightarrow> string outcome"

type_synonym store_view = "string \<Rightarrow> (string \<rightharpoonup> string)"

definition view_put :: "string \<Rightarrow> string \<Rightarrow> string \<Rightarrow> store_view \<Rightarrow> store_view" where
  "view_put n i d v = v(n := (v n)(i \<mapsto> d))"

definition view_drop :: "string \<Rightarrow> string \<Rightarrow> store_view \<Rightarrow> store_view" where
  "view_drop n i v = v(n := (v n)(i := None))"

lemma view_put_lookup [simp]:
  "view_put n i d v n' i' = (if n = n' \<and> i = i' then Some d else v n' i')"
  by (auto simp: view_put_def)

lemma view_drop_lookup [simp]:
  "view_drop n i v n' i' = (if n = n' \<and> i = i' then None else v n' i')"
  by (auto simp: view_drop_def)

section \<open>The contract\<close>

text \<open>A call that reports failure leaves the store as it was.\<close>

locale filesystem =
  fixes fs :: "'fs filesystem_interface"
    and view :: "'fs \<Rightarrow> store_view"
    and invar :: "'fs \<Rightarrow> bool"
  assumes exists_view: "invar s \<Longrightarrow> entity_exists fs s e i \<longleftrightarrow> view s (name e) i \<noteq> None"
    and read_view: "invar s \<Longrightarrow> view s (name e) i = Some d \<Longrightarrow> read_entity fs s e i = Inr d"
    and list_view: "invar s \<Longrightarrow> set (list_entity_ids fs s e) = dom (view s (name e))"
    and list_distinct: "invar s \<Longrightarrow> distinct (list_entity_ids fs s e)"
    and next_fresh: "invar s \<Longrightarrow> next_entity_id fs s e = Inr i \<Longrightarrow> view s (name e) i = None"
    and next_exception: "invar s \<Longrightarrow> next_entity_id fs s e = Inl x \<Longrightarrow> is_exception x"
    and write_view: "invar s \<Longrightarrow> write_entity fs e i d s = (ok, s') \<Longrightarrow>
        invar s' \<and> view s' = (if ok then view_put (name e) i d (view s) else view s)"
    and delete_view: "invar s \<Longrightarrow> delete_entity fs e i s = (ok, s') \<Longrightarrow>
        invar s' \<and> view s' = (if ok then view_drop (name e) i (view s) else view s)"

text \<open>An implementation that never fails to write, and deletes whatever is there.\<close>

locale reliable_filesystem = filesystem +
  assumes write_ok: "invar s \<Longrightarrow> fst (write_entity fs e i d s)"
    and delete_ok: "invar s \<Longrightarrow> fst (delete_entity fs e i s) \<longleftrightarrow> view s (name e) i \<noteq> None"
begin

lemma write_reliable:
  assumes "invar s"
  obtains s' where "write_entity fs e i d s = (True, s')" "invar s'"
    "view s' = view_put (name e) i d (view s)"
  using write_ok [OF assms, of e i d] write_view [OF assms, of e i d]
  by (cases "write_entity fs e i d s") simp

lemma delete_reliable:
  assumes "invar s" "view s (name e) i \<noteq> None"
  obtains s' where "delete_entity fs e i s = (True, s')" "invar s'"
    "view s' = view_drop (name e) i (view s)"
  using delete_ok [OF assms(1), of e i] delete_view [OF assms(1), of e i] assms(2)
  by (cases "delete_entity fs e i s") simp

end

end
