(* ===== verification/Mock_Filesystem.thy ===== *)
theory Mock_Filesystem
  imports Filesystem_Interface Std_Numeric
begin

text \<open>
  src/mock_filesystem.cc, include/mock_filesystem.h. An \<open>unordered_map\<close> is the list of its entries
  in iteration order, with no key twice. The standard does not fix that order; the model inserts
  at the end and keeps the order on erase, and \<open>Crud_Handler\<close> proves that no response depends on
  it. The log lines of the class are in \<open>Store_Log\<close>.
\<close>

type_synonym 'v unordered_map = "(string \<times> 'v) list"

fun umap_put :: "string \<Rightarrow> 'v \<Rightarrow> 'v unordered_map \<Rightarrow> 'v unordered_map" where
  "umap_put k v [] = [(k, v)]"
| "umap_put k v ((k', v') # m) = (if k' = k then (k, v) # m else (k', v') # umap_put k v m)"

definition umap_erase :: "string \<Rightarrow> 'v unordered_map \<Rightarrow> 'v unordered_map" where
  "umap_erase k m = filter (\<lambda>(k', v). k' \<noteq> k) m"

section \<open>The class\<close>

record mock_filesystem =
  data :: "string unordered_map unordered_map"

definition mock_entity_exists :: "mock_filesystem \<Rightarrow> entity \<Rightarrow> string \<Rightarrow> bool" where
  "mock_entity_exists s e i =
     (case map_of (data s) (name e) of
        None \<Rightarrow> False
      | Some m \<Rightarrow> map_of m i \<noteq> None)"

definition mock_write_entity ::
  "entity \<Rightarrow> string \<Rightarrow> string \<Rightarrow> mock_filesystem \<Rightarrow> bool \<times> mock_filesystem" where
  "mock_write_entity e i d s =
     (let m = (case map_of (data s) (name e) of None \<Rightarrow> [] | Some m \<Rightarrow> m)
      in (True, s\<lparr>data := umap_put (name e) (umap_put i d m) (data s)\<rparr>))"

definition mock_read_entity :: "mock_filesystem \<Rightarrow> entity \<Rightarrow> string \<Rightarrow> string outcome" where
  "mock_read_entity s e i =
     (if \<not> mock_entity_exists s e i
      then Inl (Runtime_error (''MockFilesystem: No such entity or ID: '' @ make_name e i))
      else (case map_of (data s) (name e) of
              None \<Rightarrow> Inl (Out_of_range ''at'')
            | Some entity_map \<Rightarrow>
                (case map_of entity_map i of
                   None \<Rightarrow> Inl (Out_of_range ''at'')
                 | Some value \<Rightarrow> Inr value)))"

definition mock_delete_entity ::
  "entity \<Rightarrow> string \<Rightarrow> mock_filesystem \<Rightarrow> bool \<times> mock_filesystem" where
  "mock_delete_entity e i s =
     (case map_of (data s) (name e) of
        None \<Rightarrow> (False, s)
      | Some m \<Rightarrow>
          if map_of m i = None then (False, s)
          else (True, s\<lparr>data := umap_put (name e) (umap_erase i m) (data s)\<rparr>))"

definition mock_list_entity_ids :: "mock_filesystem \<Rightarrow> entity \<Rightarrow> string list" where
  "mock_list_entity_ids s e =
     (case map_of (data s) (name e) of None \<Rightarrow> [] | Some m \<Rightarrow> map fst m)"

text \<open>The ids that read as a positive \<open>int\<close>; the two exceptions of \<open>stoi\<close> are caught.\<close>

fun used_ids :: "string list \<Rightarrow> int list" where
  "used_ids [] = []"
| "used_ids (id_str # ids) =
     (case stoi id_str of
        Inl e \<Rightarrow> used_ids ids
      | Inr i \<Rightarrow> if i > 0 then i # used_ids ids else used_ids ids)"

text \<open>Each pass of the search leaves one used id behind.\<close>

lemma filter_ge_shrinks:
  "(c :: int) \<in> set used \<Longrightarrow>
     length (filter (\<lambda>x. c + 1 \<le> x) used) < length (filter (\<lambda>x. c \<le> x) used)"
proof (induction used)
  case (Cons a used)
  have le: "length (filter (\<lambda>x. c + 1 \<le> x) used) \<le> length (filter (\<lambda>x. c \<le> x) used)"
    by (induction used) auto
  show ?case
  proof (cases "a = c")
    case True
    with le show ?thesis by simp
  next
    case False
    with Cons show ?thesis by auto
  qed
qed simp

text \<open>The search loop.\<close>

function next_id_loop :: "int list \<Rightarrow> string \<Rightarrow> int \<Rightarrow> string outcome" where
  "next_id_loop used ename candidate =
     (if candidate \<notin> set used then Inr (to_string_int candidate)
      else if candidate = INT_MAX
      then Inl (Overflow_error (''MockFilesystem: no available integer IDs for entity '' @ ename))
      else next_id_loop used ename (candidate + 1))"
  by pat_completeness auto
termination
  by (relation "measure (\<lambda>(used, ename, c). length (filter (\<lambda>x. c \<le> x) used))")
    (simp_all add: filter_ge_shrinks)

declare next_id_loop.simps [simp del]

definition mock_next_entity_id :: "mock_filesystem \<Rightarrow> entity \<Rightarrow> string outcome" where
  "mock_next_entity_id s e = next_id_loop (used_ids (mock_list_entity_ids s e)) (name e) 1"

definition mock_reset :: "mock_filesystem \<Rightarrow> mock_filesystem" where
  "mock_reset s = s\<lparr>data := []\<rparr>"

definition mock_interface :: "mock_filesystem filesystem_interface" where
  "mock_interface =
     \<lparr>entity_exists = mock_entity_exists, write_entity = mock_write_entity,
      delete_entity = mock_delete_entity, read_entity = mock_read_entity,
      list_entity_ids = mock_list_entity_ids, next_entity_id = mock_next_entity_id\<rparr>"

section \<open>Unordered maps\<close>

lemma map_of_umap_put [simp]: "map_of (umap_put k v m) = (map_of m)(k \<mapsto> v)"
  by (induction k v m rule: umap_put.induct) (auto simp: fun_eq_iff)

lemma fst_set_umap_put: "fst ` set (umap_put k v m) = insert k (fst ` set m)"
  by (induction k v m rule: umap_put.induct) auto

lemma distinct_umap_put: "distinct (map fst m) \<Longrightarrow> distinct (map fst (umap_put k v m))"
  by (induction k v m rule: umap_put.induct) (auto simp: fst_set_umap_put)

lemma set_umap_put: "set (umap_put k v m) \<subseteq> insert (k, v) (set m)"
  by (induction k v m rule: umap_put.induct) auto

lemma map_of_umap_erase [simp]: "map_of (umap_erase k m) = (map_of m)(k := None)"
  by (induction m) (auto simp: umap_erase_def fun_eq_iff)

lemma distinct_umap_erase: "distinct (map fst m) \<Longrightarrow> distinct (map fst (umap_erase k m))"
  by (induction m) (auto simp: umap_erase_def)

section \<open>The abstract view and the invariant\<close>

definition mock_view :: "mock_filesystem \<Rightarrow> store_view" where
  "mock_view s n i = (case map_of (data s) n of None \<Rightarrow> None | Some m \<Rightarrow> map_of m i)"

definition mock_ok :: "mock_filesystem \<Rightarrow> bool" where
  "mock_ok s \<longleftrightarrow>
     distinct (map fst (data s)) \<and> list_all (\<lambda>(n, m). distinct (map fst m)) (data s)"

definition mock_empty :: mock_filesystem where
  "mock_empty = \<lparr>data = []\<rparr>"

lemma mock_ok_inner: "mock_ok s \<Longrightarrow> map_of (data s) n = Some m \<Longrightarrow> distinct (map fst m)"
  by (auto simp: mock_ok_def list_all_iff dest: map_of_SomeD)

lemma mock_ok_put:
  "mock_ok s \<Longrightarrow> distinct (map fst m) \<Longrightarrow> mock_ok (s\<lparr>data := umap_put n m (data s)\<rparr>)"
  using set_umap_put [of n m "data s"]
  by (auto simp: mock_ok_def distinct_umap_put list_all_iff)

lemma mock_exists_view: "mock_entity_exists s e i \<longleftrightarrow> mock_view s (name e) i \<noteq> None"
  by (simp add: mock_entity_exists_def mock_view_def split: option.split)

lemma mock_write_view:
  "fst (mock_write_entity e i d s)"
  "mock_view (snd (mock_write_entity e i d s)) = view_put (name e) i d (mock_view s)"
  "mock_ok s \<Longrightarrow> mock_ok (snd (mock_write_entity e i d s))"
  by (auto simp: mock_write_entity_def Let_def mock_view_def fun_eq_iff split: option.split
      intro!: mock_ok_put distinct_umap_put intro: mock_ok_inner)

lemma mock_delete_view:
  "fst (mock_delete_entity e i s) \<longleftrightarrow> mock_view s (name e) i \<noteq> None"
  "mock_view (snd (mock_delete_entity e i s)) = view_drop (name e) i (mock_view s)"
  "mock_ok s \<Longrightarrow> mock_ok (snd (mock_delete_entity e i s))"
  by (auto simp: mock_delete_entity_def mock_view_def fun_eq_iff split: option.split
      intro!: mock_ok_put distinct_umap_erase intro: mock_ok_inner)

lemma mock_read_view:
  "mock_read_entity s e i =
     (case mock_view s (name e) i of
        None \<Rightarrow> Inl (Runtime_error (''MockFilesystem: No such entity or ID: '' @ make_name e i))
      | Some d \<Rightarrow> Inr d)"
  by (simp add: mock_read_entity_def mock_exists_view mock_view_def split: option.split)

lemma mock_list_view: "set (mock_list_entity_ids s e) = dom (mock_view s (name e))"
proof (cases "map_of (data s) (name e)")
  case (Some m)
  then have "mock_view s (name e) = map_of m" by (simp add: mock_view_def fun_eq_iff)
  with Some show ?thesis by (simp add: mock_list_entity_ids_def dom_map_of_conv_image_fst)
next
  case None
  then have "mock_view s (name e) = Map.empty" by (simp add: mock_view_def fun_eq_iff)
  with None show ?thesis by (simp add: mock_list_entity_ids_def)
qed

lemma mock_list_distinct: "mock_ok s \<Longrightarrow> distinct (mock_list_entity_ids s e)"
  by (simp add: mock_list_entity_ids_def mock_ok_inner split: option.split)

section \<open>Allocation of ids\<close>

lemma set_used_ids: "set (used_ids ids) = {k. 0 < k \<and> (\<exists>i \<in> set ids. stoi i = Inr k)}"
  by (induction ids) (auto split: sum.split)

lemma length_used_ids: "length (used_ids ids) \<le> length ids"
  by (induction ids) (auto split: sum.split)

lemma next_id_loop_Inr:
  "next_id_loop used n c = Inr i \<Longrightarrow>
     \<exists>k \<ge> c. i = to_string_int k \<and> k \<notin> set used \<and> {c..<k} \<subseteq> set used \<and> (c \<le> INT_MAX \<longrightarrow> k \<le> INT_MAX)"
proof (induction used n c rule: next_id_loop.induct)
  case (1 used n c)
  show ?case
  proof (cases "c \<in> set used \<and> c \<noteq> INT_MAX")
    case True
    with "1.prems" have "next_id_loop used n (c + 1) = Inr i"
      by (simp add: next_id_loop.simps [of used n c])
    with "1.IH" True obtain k where k: "k \<ge> c + 1" "i = to_string_int k" "k \<notin> set used"
      "{c + 1..<k} \<subseteq> set used" "c + 1 \<le> INT_MAX \<longrightarrow> k \<le> INT_MAX"
      by blast
    moreover have "{c..<k} = insert c {c + 1..<k}" using k(1) by auto
    ultimately show ?thesis using True by (intro exI [of _ k]) auto
  next
    case False
    with "1.prems" show ?thesis
      by (intro exI [of _ c]) (auto simp: next_id_loop.simps [of used n c] split: if_splits)
  qed
qed

lemma next_id_loop_Inl:
  "next_id_loop used n c = Inl x \<Longrightarrow> c \<le> INT_MAX \<Longrightarrow>
     x = Overflow_error (''MockFilesystem: no available integer IDs for entity '' @ n) \<and>
     {c..INT_MAX} \<subseteq> set used"
proof (induction used n c rule: next_id_loop.induct)
  case (1 used n c)
  have c: "c \<in> set used"
    using "1.prems"(1) by (simp add: next_id_loop.simps [of used n c] split: if_splits)
  show ?case
  proof (cases "c = INT_MAX")
    case True
    with c "1.prems"(1) show ?thesis by (auto simp: next_id_loop.simps [of used n INT_MAX])
  next
    case False
    then have "next_id_loop used n (c + 1) = Inl x"
      using c "1.prems"(1) by (simp add: next_id_loop.simps [of used n c])
    moreover have "c + 1 \<le> INT_MAX" using False "1.prems"(2) by simp
    ultimately have "x = Overflow_error (''MockFilesystem: no available integer IDs for entity '' @ n)"
      and "{c + 1..INT_MAX} \<subseteq> set used"
      using "1.IH" c False by blast+
    moreover have "{c..INT_MAX} = insert c {c + 1..INT_MAX}" using "1.prems"(2) by auto
    ultimately show ?thesis using c by simp
  qed
qed

lemma next_id_loop_room:
  assumes "length used < nat INT_MAX"
  shows "\<exists>i. next_id_loop used n 1 = Inr i"
proof (cases "next_id_loop used n 1")
  case (Inl x)
  then have "{1..INT_MAX} \<subseteq> set used"
    using next_id_loop_Inl [of used n 1 x] by (simp add: INT_MAX_def)
  then have "card {1..INT_MAX} \<le> card (set used)" by (intro card_mono) simp_all
  then show ?thesis using assms card_length [of used] by simp
qed simp

text \<open>The ids that count as used: the positive \<open>int\<close> values that stored names read as.\<close>

definition taken :: "store_view \<Rightarrow> string \<Rightarrow> int set" where
  "taken v n = {k. 0 < k \<and> (\<exists>i \<in> dom (v n). stoi i = Inr k)}"

lemma stoi_to_string_id: "0 < k \<Longrightarrow> k \<le> INT_MAX \<Longrightarrow> stoi (to_string_int k) = Inr k"
  by (rule stoi_to_string_int) (simp_all add: INT_MIN_def)

lemma used_ids_taken: "set (used_ids (mock_list_entity_ids s e)) = taken (mock_view s) (name e)"
  by (simp add: set_used_ids taken_def mock_list_view)

lemma taken_fresh:
  assumes "0 < k" "k \<le> INT_MAX" "k \<notin> taken v n"
  shows "v n (to_string_int k) = None"
proof (rule ccontr)
  assume "v n (to_string_int k) \<noteq> None"
  then have "to_string_int k \<in> dom (v n)" by blast
  then have "k \<in> taken v n"
    using stoi_to_string_id [OF assms(1,2)] assms(1) by (auto simp: taken_def)
  with assms(3) show False ..
qed

text \<open>
  \<open>next_entity_id\<close> answers with the least positive \<open>int\<close> that no stored id reads as, so the id
  is fresh; it raises only when every positive \<open>int\<close> is taken, and so never while fewer than
  \<open>INT_MAX\<close> ids are stored. An id such as \<open>3abc\<close> counts as 3, because \<open>stoi\<close> ignores what follows.
\<close>

theorem next_entity_id_least:
  "(case mock_next_entity_id s e of
      Inr i \<Rightarrow> \<exists>k. i = to_string_int k \<and> 0 < k \<and> k \<le> INT_MAX \<and>
        k \<notin> taken (mock_view s) (name e) \<and> {1..<k} \<subseteq> taken (mock_view s) (name e) \<and>
        mock_view s (name e) i = None
    | Inl x \<Rightarrow> {1..INT_MAX} \<subseteq> taken (mock_view s) (name e) \<and>
        x = Overflow_error (''MockFilesystem: no available integer IDs for entity '' @ name e)) \<and>
   (length (mock_list_entity_ids s e) < nat INT_MAX \<longrightarrow> succeeds (mock_next_entity_id s e))"
proof
  let ?used = "used_ids (mock_list_entity_ids s e)"
  have one: "1 \<le> INT_MAX" by (simp add: INT_MAX_def)
  show "case mock_next_entity_id s e of
      Inr i \<Rightarrow> \<exists>k. i = to_string_int k \<and> 0 < k \<and> k \<le> INT_MAX \<and>
        k \<notin> taken (mock_view s) (name e) \<and> {1..<k} \<subseteq> taken (mock_view s) (name e) \<and>
        mock_view s (name e) i = None
    | Inl x \<Rightarrow> {1..INT_MAX} \<subseteq> taken (mock_view s) (name e) \<and>
        x = Overflow_error (''MockFilesystem: no available integer IDs for entity '' @ name e)"
  proof (cases "mock_next_entity_id s e")
    case (Inl x)
    then have "next_id_loop ?used (name e) 1 = Inl x" by (simp add: mock_next_entity_id_def)
    from next_id_loop_Inl [OF this one] Inl show ?thesis by (simp add: used_ids_taken)
  next
    case (Inr i)
    then have "next_id_loop ?used (name e) 1 = Inr i" by (simp add: mock_next_entity_id_def)
    from next_id_loop_Inr [OF this] one obtain k where
      "1 \<le> k" "i = to_string_int k" "k \<le> INT_MAX" "k \<notin> set ?used" "{1..<k} \<subseteq> set ?used"
      by blast
    with taken_fresh [of k "mock_view s" "name e"] Inr show ?thesis
      by (auto simp: used_ids_taken intro!: exI [of _ k])
  qed
  show "length (mock_list_entity_ids s e) < nat INT_MAX \<longrightarrow> succeeds (mock_next_entity_id s e)"
    using next_id_loop_room [of ?used "name e"] length_used_ids [of "mock_list_entity_ids s e"]
    by (auto simp: mock_next_entity_id_def succeeds_iff)
qed

theorem next_entity_id_least_witness:
  "\<exists>s. mock_view s ''Shoes'' ''1'' = Some ''{}'' \<and>
     succeeds (mock_next_entity_id s \<lparr>name = ''Shoes''\<rparr>)"
proof (intro exI conjI)
  let ?s = "snd (mock_write_entity \<lparr>name = ''Shoes''\<rparr> ''1'' ''{}'' mock_empty)"
  show "mock_view ?s ''Shoes'' ''1'' = Some ''{}''" by code_simp
  have "length (mock_list_entity_ids ?s \<lparr>name = ''Shoes''\<rparr>) < nat INT_MAX" by code_simp
  with next_entity_id_least [of ?s "\<lparr>name = ''Shoes''\<rparr>"]
  show "succeeds (mock_next_entity_id ?s \<lparr>name = ''Shoes''\<rparr>)" by blast
qed

section \<open>The class meets the contract\<close>

lemma mock_next_fresh: "mock_next_entity_id s e = Inr i \<Longrightarrow> mock_view s (name e) i = None"
proof -
  assume "mock_next_entity_id s e = Inr i"
  then have l: "next_id_loop (used_ids (mock_list_entity_ids s e)) (name e) 1 = Inr i"
    by (simp add: mock_next_entity_id_def)
  show ?thesis
    using next_id_loop_Inr [OF l] taken_fresh [of _ "mock_view s" "name e"]
    by (auto simp: used_ids_taken INT_MAX_def)
qed

lemma mock_next_exception: "mock_next_entity_id s e = Inl x \<Longrightarrow> is_exception x"
  using next_id_loop_Inl [of "used_ids (mock_list_entity_ids s e)" "name e" 1 x]
  by (simp add: mock_next_entity_id_def INT_MAX_def)

lemma view_drop_absent: "v n i = None \<Longrightarrow> view_drop n i v = v"
  by (auto simp: fun_eq_iff)

lemma mock_delete_cases:
  assumes "mock_ok s" "mock_delete_entity e i s = (ok, s')"
  shows "mock_ok s' \<and> mock_view s' = (if ok then view_drop (name e) i (mock_view s) else mock_view s)"
proof -
  have ok: "ok \<longleftrightarrow> mock_view s (name e) i \<noteq> None"
    and view: "mock_view s' = view_drop (name e) i (mock_view s)" and inv: "mock_ok s'"
    using mock_delete_view(1) [of e i s] mock_delete_view(2) [of e i s]
      mock_delete_view(3) [OF assms(1), of e i] assms(2) by simp_all
  show ?thesis
  proof (cases ok)
    case False
    with ok view_drop_absent view inv show ?thesis by simp
  qed (simp add: view inv)
qed

lemma mock_write_cases:
  "mock_ok s \<Longrightarrow> mock_write_entity e i d s = (ok, s') \<Longrightarrow>
     ok \<and> mock_ok s' \<and> mock_view s' = view_put (name e) i d (mock_view s)"
  using mock_write_view(1) [of e i d s] mock_write_view(2) [of e i d s]
    mock_write_view(3) [of s e i d] by simp

lemma mock_interface_simps [simp]:
  "entity_exists mock_interface = mock_entity_exists"
  "write_entity mock_interface = mock_write_entity"
  "delete_entity mock_interface = mock_delete_entity"
  "read_entity mock_interface = mock_read_entity"
  "list_entity_ids mock_interface = mock_list_entity_ids"
  "next_entity_id mock_interface = mock_next_entity_id"
  by (simp_all add: mock_interface_def)

interpretation mock: reliable_filesystem mock_interface mock_view mock_ok
  apply (unfold_locales, unfold mock_interface_simps)
  subgoal by (simp add: mock_exists_view)
  subgoal by (simp add: mock_read_view)
  subgoal by (simp add: mock_list_view)
  subgoal by (simp add: mock_list_distinct)
  subgoal by (rule mock_next_fresh)
  subgoal by (rule mock_next_exception)
  subgoal by (drule (1) mock_write_cases) simp
  subgoal by (rule mock_delete_cases)
  subgoal by (rule mock_write_view)
  subgoal by (rule mock_delete_view)
  done

section \<open>Sequences of calls\<close>

datatype store_call = Write string string string | Delete string string | Reset

fun apply_store_call :: "store_call \<Rightarrow> mock_filesystem \<Rightarrow> mock_filesystem" where
  "apply_store_call (Write n i d) s = snd (mock_write_entity \<lparr>name = n\<rparr> i d s)"
| "apply_store_call (Delete n i) s = snd (mock_delete_entity \<lparr>name = n\<rparr> i s)"
| "apply_store_call Reset s = mock_reset s"

fun view_call :: "store_call \<Rightarrow> store_view \<Rightarrow> store_view" where
  "view_call (Write n i d) v = view_put n i d v"
| "view_call (Delete n i) v = view_drop n i v"
| "view_call Reset v = (\<lambda>n. Map.empty)"

lemma mock_empty_view: "mock_view mock_empty = (\<lambda>n. Map.empty)" "mock_ok mock_empty"
  by (simp_all add: mock_view_def mock_empty_def mock_ok_def fun_eq_iff)

lemma mock_reset_empty: "mock_reset s = mock_empty"
  by (cases s) (simp add: mock_reset_def mock_empty_def)

lemma store_call_refines:
  "mock_ok s \<Longrightarrow> mock_ok (apply_store_call c s) \<and> mock_view (apply_store_call c s) = view_call c (mock_view s)"
  using mock_empty_view
  by (cases c) (simp_all add: mock_write_view mock_delete_view mock_reset_empty)

lemma store_calls_refine:
  "mock_ok s \<Longrightarrow> mock_ok (fold apply_store_call cs s) \<and>
     mock_view (fold apply_store_call cs s) = fold view_call cs (mock_view s)"
  using store_call_refines by (induction cs arbitrary: s) auto

text \<open>
  After any sequence of writes, deletions and resets the store answers as a partial map from
  entity name and id to data does: \<open>entity_exists\<close>, \<open>read_entity\<close> and \<open>list_entity_ids\<close> report exactly
  what the map holds, a read of what is absent raises, and no id is listed twice.
\<close>

theorem mock_filesystem_refines_map:
  "let s = fold apply_store_call cs mock_empty; v = fold view_call cs (\<lambda>n. Map.empty); e = \<lparr>name = n\<rparr>
   in (mock_entity_exists s e i \<longleftrightarrow> v n i \<noteq> None) \<and>
      mock_read_entity s e i =
        (case v n i of
           Some d \<Rightarrow> Inr d
         | None \<Rightarrow> Inl (Runtime_error
             (''MockFilesystem: No such entity or ID: '' @ n @ ''/'' @ i))) \<and>
      set (mock_list_entity_ids s e) = dom (v n) \<and> distinct (mock_list_entity_ids s e)"
  using store_calls_refine [OF mock_empty_view(2), of cs] mock_empty_view(1)
  by (simp add: Let_def mock_exists_view mock_read_view mock_list_view mock_list_distinct
      make_name_def split: option.split)

end
