(* ===== verification/Store_Log.thy ===== *)
theory Store_Log
  imports Mock_Filesystem Logger
begin

text \<open>
  What the calls of \<open>MockFilesystem\<close> (src/mock_filesystem.cc) write to the trivial logger of Boost.Log.
  Each definition takes the arguments of the call and gives the records in order; the calls
  \<open>entity_exists\<close> and \<open>list_entity_ids\<close> write none.
\<close>

definition mock_write_log :: "entity \<Rightarrow> string \<Rightarrow> log_record list" where
  "mock_write_log e i = [(debug, ''MockFilesystem: Writing entity '' @ make_name e i)]"

definition mock_read_log :: "mock_filesystem \<Rightarrow> entity \<Rightarrow> string \<Rightarrow> log_record list" where
  "mock_read_log s e i =
     (if \<not> mock_entity_exists s e i
      then [(warning, ''MockFilesystem: No such entity or ID: '' @ make_name e i)]
      else [])"

definition mock_delete_log :: "mock_filesystem \<Rightarrow> entity \<Rightarrow> string \<Rightarrow> log_record list" where
  "mock_delete_log s e i =
     (case map_of (data s) (name e) of
        None \<Rightarrow>
          [(warning, ''MockFilesystem: Could not remove entity (no such type): '' @ make_name e i)]
      | Some m \<Rightarrow>
          if map_of m i = None
          then [(warning, ''MockFilesystem: Could not remove entity (no such id): '' @ make_name e i)]
          else [(debug, ''MockFilesystem: Removing entity '' @ make_name e i)])"

definition mock_next_log :: "mock_filesystem \<Rightarrow> entity \<Rightarrow> log_record list" where
  "mock_next_log s e =
     (case mock_next_entity_id s e of
        Inr i \<Rightarrow> [(debug, ''MockFilesystem: next_entity_id for '' @ name e @ '' -> '' @ i)]
      | Inl ex \<Rightarrow> [(error, ''MockFilesystem: next_entity_id overflow for entity '' @ name e)])"

definition mock_reset_log :: "log_record list" where
  "mock_reset_log = [(debug, ''MockFilesystem: Resetting'')]"

text \<open>A record that a filter at the level of warnings keeps.\<close>

definition alarming :: "log_record list \<Rightarrow> bool" where
  "alarming logs \<longleftrightarrow> (\<exists>r \<in> set logs. warning \<le> fst r)"

lemma severity_order [simp]:
  "warning \<le> warning" "warning \<le> error" "\<not> warning \<le> debug"
  by (simp_all add: less_eq_severity_level_def)

text \<open>
  The log shows failures and only failures: a record of at least the level of a warning is written
  exactly by a read that raises, a removal that returns false, and an allocation that raises. The
  warning of a read is the text of its exception.
\<close>

theorem store_log_alarms:
  "(alarming (mock_read_log s e i) \<longleftrightarrow> \<not> succeeds (mock_read_entity s e i)) \<and>
   (alarming (mock_delete_log s e i) \<longleftrightarrow> \<not> fst (mock_delete_entity e i s)) \<and>
   (alarming (mock_next_log s e) \<longleftrightarrow> \<not> succeeds (mock_next_entity_id s e)) \<and>
   \<not> alarming (mock_write_log e i) \<and> \<not> alarming mock_reset_log \<and>
   (\<forall>ex. mock_read_entity s e i = Inl ex \<longrightarrow> mock_read_log s e i = [(warning, what ex)])"
proof (intro conjI)
  show "alarming (mock_read_log s e i) \<longleftrightarrow> \<not> succeeds (mock_read_entity s e i)"
    "\<forall>ex. mock_read_entity s e i = Inl ex \<longrightarrow> mock_read_log s e i = [(warning, what ex)]"
    by (auto simp: alarming_def mock_read_log_def mock_read_view mock_exists_view split: option.splits)
  show "alarming (mock_delete_log s e i) \<longleftrightarrow> \<not> fst (mock_delete_entity e i s)"
    by (auto simp: alarming_def mock_delete_log_def mock_delete_entity_def split: option.splits)
  show "alarming (mock_next_log s e) \<longleftrightarrow> \<not> succeeds (mock_next_entity_id s e)"
    by (auto simp: alarming_def mock_next_log_def split: sum.splits)
qed (simp_all add: alarming_def mock_write_log_def mock_reset_log_def)

end
