(* ===== verification/Crud_Handler.thy ===== *)
theory Crud_Handler
  imports Mock_Filesystem Http_Request Http_Response
begin

text \<open>
  \<open>CrudHandler\<close> (src/crud_handler.cc, include/crud_handler.h) over any implementation of
  \<open>FilesystemInterface\<close>. Every handler returns the response, or the exception that leaves it, and
  the store afterwards. The lemmas about it are proved once in the locale of the interface; the
  properties are about the in-memory store, which interprets the locale.
\<close>

record 'fs crud_handler =
  crud_prefix :: string
  backend :: "'fs filesystem_interface"

section \<open>Operations\<close>

text \<open>
  The part after the prefix, without its leading slash, split into one or two segments. \<open>None\<close> is
  the result \<open>false\<close>; otherwise the entity, the id and whether there is one.
\<close>

definition split_segments :: "string \<Rightarrow> (entity \<times> string \<times> bool) option" where
  "split_segments rest =
     (case str_find ''/'' rest of
        None \<Rightarrow> if rest = [] then None else Some (\<lparr>name = rest\<rparr>, [], False)
      | Some slash_pos \<Rightarrow>
          (let entity_part = take slash_pos rest; id_part = drop (slash_pos + 1) rest
           in if str_find ''/'' id_part \<noteq> None then None
              else if entity_part = [] then None
              else Some (\<lparr>name = entity_part\<rparr>, id_part, id_part \<noteq> [])))"

definition parse_entity_and_id_from_path ::
  "string \<Rightarrow> string \<Rightarrow> (entity \<times> string \<times> bool) option" where
  "parse_entity_and_id_from_path route_prefix p =
     (let p = (case str_find ''?'' p of None \<Rightarrow> p | Some query_pos \<Rightarrow> take query_pos p)
      in if route_prefix \<noteq> [] \<and> \<not> prefix route_prefix p then None
         else
           (let rest = drop (length route_prefix) p
            in split_segments (if rest \<noteq> [] \<and> hd rest = CHR ''/'' then tl rest else rest)))"

definition extract_json_field :: "string \<Rightarrow> string \<Rightarrow> string" where
  "extract_json_field json field_name =
     (case str_find (DQUOTE # field_name @ [DQUOTE]) json of
        None \<Rightarrow> []
      | Some field_pos \<Rightarrow>
          (case str_find_from '':'' field_pos json of
             None \<Rightarrow> []
           | Some colon_pos \<Rightarrow>
               (case find_first_not_of [SP, TAB, LF] (drop (colon_pos + 1) json) of
                  None \<Rightarrow> []
                | Some skipped \<Rightarrow>
                    (let value_start = colon_pos + 1 + skipped
                     in if json ! value_start \<noteq> DQUOTE then []
                        else
                          (case str_find_from [DQUOTE] (value_start + 1) json of
                             None \<Rightarrow> []
                           | Some value_end \<Rightarrow>
                               take (value_end - (value_start + 1)) (drop (value_start + 1) json))))))"

definition handle_post ::
  "'fs filesystem_interface \<Rightarrow> http_request \<Rightarrow> entity \<Rightarrow> 'fs \<Rightarrow> http_response outcome \<times> 'fs" where
  "handle_post fs request e s =
     (case next_entity_id fs s e of
        Inl ex \<Rightarrow>
          (if is_exception ex
           then (Inr (reply 500 ''Internal Server Error'' ''text/plain''
                        (''Failed to allocate ID: '' @ what ex)), s)
           else (Inl ex, s))
      | Inr new_id \<Rightarrow>
          (let (ok, s) = write_entity fs e new_id (body request) s
           in if \<not> ok
              then (Inr (reply 500 ''Internal Server Error'' ''text/plain''
                           ''Failed to store entity''), s)
              else (Inr (reply 201 ''Created'' ''application/json''
                           (''{'' @ [DQUOTE] @ ''id'' @ [DQUOTE] @ '': '' @ new_id @ ''}'')), s)))"

definition entity_not_found :: http_response where
  "entity_not_found = reply 404 ''Not Found'' ''text/html'' ''Entity not found''"

definition handle_get ::
  "'fs filesystem_interface \<Rightarrow> http_request \<Rightarrow> entity \<Rightarrow> string \<Rightarrow> 'fs \<Rightarrow>
     http_response outcome \<times> 'fs" where
  "handle_get fs request e i s =
     (if \<not> entity_exists fs s e i then (Inr entity_not_found, s)
      else (andThen (read_entity fs s e i) (\<lambda>d. Inr (reply 200 ''OK'' ''application/json'' d)), s))"

definition handle_put ::
  "'fs filesystem_interface \<Rightarrow> http_request \<Rightarrow> entity \<Rightarrow> string \<Rightarrow> 'fs \<Rightarrow>
     http_response outcome \<times> 'fs" where
  "handle_put fs request e i s =
     (if \<not> entity_exists fs s e i then (Inr entity_not_found, s)
      else
        (let (ok, s) = write_entity fs e i (body request) s
         in if \<not> ok
            then (Inr (reply 500 ''Internal Server Error'' ''text/plain''
                         ''Failed to update entity''), s)
            else (Inr (reply 200 ''OK'' ''application/json'' (body request)), s)))"

definition handle_delete ::
  "'fs filesystem_interface \<Rightarrow> http_request \<Rightarrow> entity \<Rightarrow> string \<Rightarrow> 'fs \<Rightarrow>
     http_response outcome \<times> 'fs" where
  "handle_delete fs request e i s =
     (if \<not> entity_exists fs s e i then (Inr entity_not_found, s)
      else
        (let (ok, s) = delete_entity fs e i s
         in if \<not> ok
            then (Inr (reply 500 ''Internal Server Error'' ''text/plain''
                         ''Failed to delete entity''), s)
            else (Inr (reply 200 ''OK'' ''text/plain'' ''Entity deleted successfully''), s)))"

text \<open>The filter of the list request: a substring test on one field of the stored text.\<close>

definition field_matches :: "string option \<Rightarrow> string \<Rightarrow> string \<Rightarrow> bool" where
  "field_matches filter_value entity_data field =
     (case filter_value of
        None \<Rightarrow> True
      | Some f \<Rightarrow> str_find f (extract_json_field entity_data field) \<noteq> None)"

fun filter_ids ::
  "'fs filesystem_interface \<Rightarrow> 'fs \<Rightarrow> entity \<Rightarrow> string option \<Rightarrow> string option \<Rightarrow> string list \<Rightarrow>
     string list outcome" where
  "filter_ids fs s e name_filter tag_filter [] = Inr []"
| "filter_ids fs s e name_filter tag_filter (i # ids) =
     (if name_filter = None \<and> tag_filter = None
      then andThen (filter_ids fs s e name_filter tag_filter ids) (\<lambda>rest. Inr (i # rest))
      else
        andThen (read_entity fs s e i) (\<lambda>entity_data.
          let matches = field_matches name_filter entity_data ''name'' \<and>
                        field_matches tag_filter entity_data ''tag''
          in andThen (filter_ids fs s e name_filter tag_filter ids) (\<lambda>rest.
               Inr (if matches then i # rest else rest))))"

fun join_ids :: "string list \<Rightarrow> string" where
  "join_ids [] = []"
| "join_ids [i] = [DQUOTE] @ i @ [DQUOTE]"
| "join_ids (i # j # ids) = [DQUOTE] @ i @ [DQUOTE] @ '', '' @ join_ids (j # ids)"

definition handle_list ::
  "'fs filesystem_interface \<Rightarrow> http_request \<Rightarrow> entity \<Rightarrow> 'fs \<Rightarrow> http_response outcome \<times> 'fs" where
  "handle_list fs request e s =
     (andThen
        (filter_ids fs s e (get_query_param ''name'' request) (get_query_param ''tag'' request)
          (list_entity_ids fs s e))
        (\<lambda>filtered_ids.
          Inr (reply 200 ''OK'' ''application/json'' (''['' @ join_ids (sort filtered_ids) @ '']''))),
      s)"

definition bad_request :: "string \<Rightarrow> http_response" where
  "bad_request message = reply 400 ''Bad Request'' ''text/plain'' message"

definition crud_handle_request ::
  "'fs crud_handler \<Rightarrow> http_request \<Rightarrow> 'fs \<Rightarrow> http_response outcome \<times> 'fs" where
  "crud_handle_request h request s =
     (case parse_entity_and_id_from_path (crud_prefix h) (path request) of
        None \<Rightarrow> (Inr (bad_request ''Invalid CRUD path''), s)
      | Some (e, i, has_id) \<Rightarrow>
          if method request = ''POST'' then
            (if has_id then (Inr (bad_request ''POST must not include ID in path''), s)
             else handle_post (backend h) request e s)
          else if method request = ''GET'' then
            (if has_id then handle_get (backend h) request e i s
             else handle_list (backend h) request e s)
          else if method request = ''PUT'' then
            (if \<not> has_id then (Inr (bad_request ''PUT must include ID in path''), s)
             else handle_put (backend h) request e i s)
          else if method request = ''DELETE'' then
            (if \<not> has_id then (Inr (bad_request ''DELETE must include ID in path''), s)
             else handle_delete (backend h) request e i s)
          else
            (Inr (reply 501 ''Not Implemented'' ''text/plain''
                    ''CRUD method not implemented yet''), s))"

definition crud_handler_name :: string where
  "crud_handler_name = ''CrudHandler''"

section \<open>The API as a contract on partial maps\<close>

text \<open>What a request asks of the API, and the answers the API allows.\<close>

datatype crud_call =
    Create string string
  | Retrieve string string
  | Enumerate string "string option" "string option"
  | Update string string string
  | Remove string string
  | Refuse int

definition crud_call_of :: "string \<Rightarrow> http_request \<Rightarrow> crud_call" where
  "crud_call_of route_prefix request =
     (case parse_entity_and_id_from_path route_prefix (path request) of
        None \<Rightarrow> Refuse 400
      | Some (e, i, has_id) \<Rightarrow>
          if method request = ''POST''
          then (if has_id then Refuse 400 else Create (name e) (body request))
          else if method request = ''GET''
          then (if has_id then Retrieve (name e) i
                else Enumerate (name e) (get_query_param ''name'' request)
                       (get_query_param ''tag'' request))
          else if method request = ''PUT''
          then (if has_id then Update (name e) i (body request) else Refuse 400)
          else if method request = ''DELETE''
          then (if has_id then Remove (name e) i else Refuse 400)
          else Refuse 501)"

definition listed :: "store_view \<Rightarrow> string \<Rightarrow> string option \<Rightarrow> string option \<Rightarrow> string \<Rightarrow> bool" where
  "listed v n name_filter tag_filter i =
     (case v n i of
        None \<Rightarrow> False
      | Some d \<Rightarrow> field_matches name_filter d ''name'' \<and> field_matches tag_filter d ''tag'')"

definition id_body :: "string \<Rightarrow> string" where
  "id_body i = ''{'' @ [DQUOTE] @ ''id'' @ [DQUOTE] @ '': '' @ i @ ''}''"

definition list_body :: "string set \<Rightarrow> string" where
  "list_body ids = ''['' @ join_ids (sorted_list_of_set ids) @ '']''"

definition answers :: "http_response \<Rightarrow> int \<Rightarrow> string \<Rightarrow> bool" where
  "answers r sc b \<longleftrightarrow> sendable r \<and> status_code r = Some sc \<and> message_body r = b"

lemma answers_reply [simp]:
  "answers (reply sc rp ct b) sc' b' \<longleftrightarrow> clean rp \<and> clean ct \<and> sc = sc' \<and> b = b'"
  by (simp add: answers_def)

fun crud_contract :: "crud_call \<Rightarrow> store_view \<Rightarrow> http_response \<Rightarrow> store_view \<Rightarrow> bool" where
  "crud_contract (Create n d) v r v' \<longleftrightarrow>
     (\<exists>i. v n i = None \<and> answers r 201 (id_body i) \<and> v' = view_put n i d v) \<or>
     (sendable r \<and> status_code r = Some 500 \<and> v' = v)"
| "crud_contract (Retrieve n i) v r v' \<longleftrightarrow>
     v' = v \<and> (case v n i of Some d \<Rightarrow> answers r 200 d | None \<Rightarrow> answers r 404 ''Entity not found'')"
| "crud_contract (Enumerate n nf tf) v r v' \<longleftrightarrow>
     v' = v \<and> answers r 200 (list_body {i. listed v n nf tf i})"
| "crud_contract (Update n i d) v r v' \<longleftrightarrow>
     (if v n i = None then v' = v \<and> answers r 404 ''Entity not found''
      else v' = view_put n i d v \<and> answers r 200 d)"
| "crud_contract (Remove n i) v r v' \<longleftrightarrow>
     (if v n i = None then v' = v \<and> answers r 404 ''Entity not found''
      else v' = view_drop n i v \<and> answers r 200 ''Entity deleted successfully'')"
| "crud_contract (Refuse sc) v r v' \<longleftrightarrow>
     v' = v \<and> sendable r \<and> status_code r = Some sc"

lemma answers_not_found [simp]: "answers entity_not_found 404 ''Entity not found''"
  by (simp add: entity_not_found_def)

section \<open>Every reliable store gives a handler that meets the contract\<close>

context reliable_filesystem
begin

lemma filter_ids_eq:
  "invar s \<Longrightarrow> set ids \<subseteq> dom (view s (name e)) \<Longrightarrow>
     filter_ids fs s e nf tf ids = Inr (filter (listed (view s) (name e) nf tf) ids)"
proof (induction ids)
  case (Cons i ids)
  obtain d where d: "view s (name e) i = Some d" using Cons.prems(2) by auto
  have "read_entity fs s e i = Inr d" using read_view [OF Cons.prems(1) d] .
  with Cons d show ?case
    by (auto simp: listed_def field_matches_def [of None])
qed simp

lemma list_contract:
  assumes "invar s"
  shows "\<exists>r. handle_list fs request e s = (Inr r, s) \<and>
    answers r 200 (list_body {i. listed (view s) (name e)
      (get_query_param ''name'' request) (get_query_param ''tag'' request) i})"
proof -
  let ?P = "listed (view s) (name e)
      (get_query_param ''name'' request) (get_query_param ''tag'' request)"
  let ?ids = "list_entity_ids fs s e"
  have "{i. ?P i} = set (filter ?P ?ids)"
    by (auto simp: list_view [OF assms] listed_def split: option.splits)
  then have "sorted_list_of_set {i. ?P i} = sort (filter ?P ?ids)"
    using list_distinct [OF assms, of e]
    by (simp only: sorted_list_of_set_sort_remdups distinct_remdups_id distinct_filter)
  then show ?thesis
    using filter_ids_eq [OF assms, of ?ids e] list_view [OF assms, of e]
    by (simp add: handle_list_def list_body_def)
qed

lemma create_contract:
  assumes "invar s"
  shows "\<exists>r s'. handle_post fs request e s = (Inr r, s') \<and> invar s' \<and>
    crud_contract (Create (name e) (body request)) (view s) r (view s')"
proof (cases "next_entity_id fs s e")
  case (Inl x)
  with next_exception [OF assms Inl] assms show ?thesis by (simp add: handle_post_def)
next
  case (Inr i)
  obtain s' where "write_entity fs e i (body request) s = (True, s')" "invar s'"
    "view s' = view_put (name e) i (body request) (view s)"
    using write_reliable [OF assms] .
  then show ?thesis
    using Inr next_fresh [OF assms Inr] by (auto simp: handle_post_def id_body_def)
qed

lemma retrieve_contract:
  assumes "invar s"
  shows "\<exists>r. handle_get fs request e i s = (Inr r, s) \<and>
    crud_contract (Retrieve (name e) i) (view s) r (view s)"
  using exists_view [OF assms, of e i] read_view [OF assms, of e i]
  by (cases "view s (name e) i") (simp_all add: handle_get_def)

lemma update_contract:
  assumes "invar s"
  shows "\<exists>r s'. handle_put fs request e i s = (Inr r, s') \<and> invar s' \<and>
    crud_contract (Update (name e) i (body request)) (view s) r (view s')"
proof -
  obtain s' where "write_entity fs e i (body request) s = (True, s')" "invar s'"
    "view s' = view_put (name e) i (body request) (view s)"
    using write_reliable [OF assms] .
  then show ?thesis
    using assms exists_view [OF assms, of e i] by (simp add: handle_put_def)
qed

lemma remove_contract:
  assumes "invar s"
  shows "\<exists>r s'. handle_delete fs request e i s = (Inr r, s') \<and> invar s' \<and>
    crud_contract (Remove (name e) i) (view s) r (view s')"
proof (cases "view s (name e) i = None")
  case True
  with assms exists_view [OF assms, of e i] show ?thesis by (simp add: handle_delete_def)
next
  case False
  obtain s' where "delete_entity fs e i s = (True, s')" "invar s'"
    "view s' = view_drop (name e) i (view s)"
    using delete_reliable [OF assms False] .
  then show ?thesis
    using False exists_view [OF assms, of e i] by (simp add: handle_delete_def)
qed

lemma crud_meets_contract:
  assumes "invar s"
  shows "\<exists>r s'. crud_handle_request \<lparr>crud_prefix = p, backend = fs\<rparr> request s = (Inr r, s') \<and>
    invar s' \<and> crud_contract (crud_call_of p request) (view s) r (view s')"
proof (cases "parse_entity_and_id_from_path p (path request)")
  case None
  with assms show ?thesis by (simp add: crud_handle_request_def crud_call_of_def bad_request_def)
next
  case (Some q)
  obtain e i h where q: "q = (e, i, h)" by (cases q)
  show ?thesis
    using Some q assms create_contract [OF assms, of request e]
      retrieve_contract [OF assms, of request e i] list_contract [OF assms, of request e]
      update_contract [OF assms, of request e i] remove_contract [OF assms, of request e i]
    by (auto simp: crud_handle_request_def crud_call_of_def bad_request_def
        simp del: crud_contract.simps(1,2,4,5))
qed

end

section \<open>The handler on the in-memory store\<close>

abbreviation mock_crud :: "string \<Rightarrow> mock_filesystem crud_handler" where
  "mock_crud p \<equiv> \<lparr>crud_prefix = p, backend = mock_interface\<rparr>"

text \<open>
  C13: on the in-memory store every request to the CRUD handler returns a response, never an
  exception, keeps the store well formed, and answers as the contract on partial maps says: a
  creation stores the body under a fresh id and reports it, a retrieval answers with the data or
  404, a list names exactly the stored ids that pass the filters in byte order, an update or removal
  of what is absent is a 404 without effect, and a refused request changes nothing.
\<close>

theorem crud_handler_refines_map:
  assumes "mock_ok s"
  shows "\<exists>r s'. crud_handle_request (mock_crud p) request s = (Inr r, s') \<and> mock_ok s' \<and>
    crud_contract (crud_call_of p request) (mock_view s) r (mock_view s')"
  by (rule mock.crud_meets_contract [OF assms])

theorem crud_handler_refines_map_witness:
  "\<exists>r s'. crud_handle_request (mock_crud ''/api'')
       (empty_request\<lparr>method := ''POST'', path := ''/api/Shoes'', body := ''{}''\<rparr>) mock_empty =
         (Inr r, s') \<and> mock_ok s' \<and>
     crud_contract
       (crud_call_of ''/api''
         (empty_request\<lparr>method := ''POST'', path := ''/api/Shoes'', body := ''{}''\<rparr>))
       (mock_view mock_empty) r (mock_view s')"
  by (rule crud_handler_refines_map) (rule mock_empty_view)

subsection \<open>Paths\<close>

definition segment :: "string \<Rightarrow> bool" where
  "segment n \<longleftrightarrow> n \<noteq> [] \<and> CHR ''/'' \<notin> set n \<and> CHR ''?'' \<notin> set n"

text \<open>Nothing, or a query string.\<close>

definition query_part :: "string \<Rightarrow> bool" where
  "query_part q \<longleftrightarrow> q = [] \<or> hd q = CHR ''?''"

lemma cut_query:
  "CHR ''?'' \<notin> set p \<Longrightarrow> query_part q \<Longrightarrow> takeWhile (\<lambda>c. c \<noteq> CHR ''?'') (p @ q) = p"
  by (cases q) (auto simp: query_part_def)

lemma parse_path_rest:
  assumes "CHR ''?'' \<notin> set p" "CHR ''?'' \<notin> set rest" "query_part q"
  shows "parse_entity_and_id_from_path p (p @ rest @ q) =
    split_segments (if rest \<noteq> [] \<and> hd rest = CHR ''/'' then tl rest else rest)"
proof -
  have "takeWhile (\<lambda>c. c \<noteq> CHR ''?'') ((p @ rest) @ q) = p @ rest"
    using assms by (intro cut_query) simp_all
  then show ?thesis
    by (simp add: parse_entity_and_id_from_path_def cut_at_char)
qed

lemma split_one: "segment n \<Longrightarrow> split_segments n = Some (\<lparr>name = n\<rparr>, [], False)"
  by (simp add: split_segments_def segment_def str_find_char_eq)

lemma split_two:
  "segment n \<Longrightarrow> split_segments (n @ CHR ''/'' # i) =
     (if CHR ''/'' \<in> set i then None else Some (\<lparr>name = n\<rparr>, i, i \<noteq> []))"
  by (simp add: split_segments_def segment_def Let_def)

lemma segment_head: "segment n \<Longrightarrow> n \<noteq> [] \<and> hd n \<noteq> CHR ''/''"
  by (cases n) (auto simp: segment_def)

text \<open>
  Which paths the handler accepts. The canonical forms \<open>prefix/Entity\<close> and \<open>prefix/Entity/id\<close>
  are split into their parts, with any query string ignored and a trailing slash after the entity
  allowed; a further slash or a missing prefix is refused. The slash between prefix and entity is
  optional, so \<open>/apiShoes\<close> is accepted under the prefix \<open>/api\<close>.
\<close>

theorem crud_path_forms:
  assumes "CHR ''?'' \<notin> set p" "segment n" "segment i" "query_part q" "CHR ''?'' \<notin> set x"
  shows "parse_entity_and_id_from_path p (p @ ''/'' @ n @ q) = Some (\<lparr>name = n\<rparr>, [], False) \<and>
    parse_entity_and_id_from_path p (p @ ''/'' @ n @ ''/'' @ q) = Some (\<lparr>name = n\<rparr>, [], False) \<and>
    parse_entity_and_id_from_path p (p @ ''/'' @ n @ ''/'' @ i @ q) = Some (\<lparr>name = n\<rparr>, i, True) \<and>
    parse_entity_and_id_from_path p (p @ ''/'' @ n @ ''/'' @ i @ ''/'' @ x @ q) = None \<and>
    parse_entity_and_id_from_path p (p @ n @ q) = Some (\<lparr>name = n\<rparr>, [], False) \<and>
    (\<not> prefix p x \<longrightarrow> p \<noteq> [] \<longrightarrow> parse_entity_and_id_from_path p (x @ q) = None)"
proof (intro conjI impI)
  note seg = assms(2,3) [unfolded segment_def] segment_head [OF assms(2)]
    split_one [OF assms(2)] split_two [OF assms(2)]
  note rest = parse_path_rest [OF assms(1) _ assms(4)]
  show "parse_entity_and_id_from_path p (p @ ''/'' @ n @ q) = Some (\<lparr>name = n\<rparr>, [], False)"
    using rest [of "''/'' @ n"] seg by simp
  show "parse_entity_and_id_from_path p (p @ ''/'' @ n @ ''/'' @ q) = Some (\<lparr>name = n\<rparr>, [], False)"
    using rest [of "''/'' @ n @ ''/''"] seg by simp
  show "parse_entity_and_id_from_path p (p @ ''/'' @ n @ ''/'' @ i @ q) = Some (\<lparr>name = n\<rparr>, i, True)"
    using rest [of "''/'' @ n @ ''/'' @ i"] seg by simp
  show "parse_entity_and_id_from_path p (p @ ''/'' @ n @ ''/'' @ i @ ''/'' @ x @ q) = None"
    using rest [of "''/'' @ n @ ''/'' @ i @ ''/'' @ x"] seg assms(5) by simp
  show "parse_entity_and_id_from_path p (p @ n @ q) = Some (\<lparr>name = n\<rparr>, [], False)"
    using rest [of n] seg by simp
  assume "\<not> prefix p x" "p \<noteq> []"
  then show "parse_entity_and_id_from_path p (x @ q) = None"
    using cut_query [OF assms(5,4)]
    by (simp add: parse_entity_and_id_from_path_def cut_at_char)
qed

theorem crud_path_forms_witness:
  "parse_entity_and_id_from_path ''/api'' (''/api'' @ ''/'' @ ''Shoes'' @ ''?a=1'') =
     Some (\<lparr>name = ''Shoes''\<rparr>, [], False) \<and>
   parse_entity_and_id_from_path ''/api'' (''/api'' @ ''Shoes'' @ ''?a=1'') =
     Some (\<lparr>name = ''Shoes''\<rparr>, [], False)"
proof -
  have "CHR ''?'' \<notin> set ''/api''" "segment ''Shoes''" "segment ''1''" "query_part ''?a=1''"
    "CHR ''?'' \<notin> set ''x''"
    by code_simp+
  from crud_path_forms [OF this] show ?thesis by blast
qed

subsection \<open>Independence of the iteration order\<close>

text \<open>Two stores that hold the same data, in whatever order their tables are iterated.\<close>

definition same_data :: "mock_filesystem \<Rightarrow> mock_filesystem \<Rightarrow> bool" where
  "same_data s t \<longleftrightarrow> mock_ok s \<and> mock_ok t \<and> mock_view s = mock_view t"

lemma next_id_loop_cong:
  "set used = set used' \<Longrightarrow> next_id_loop used n c = next_id_loop used' n c"
proof (induction used n c rule: next_id_loop.induct)
  case (1 used n c)
  then show ?case
    by (simp add: next_id_loop.simps [of used n c] next_id_loop.simps [of used' n c])
qed

lemma same_data_reads:
  assumes "same_data s t"
  shows "mock_entity_exists s e i = mock_entity_exists t e i"
    and "mock_read_entity s e i = mock_read_entity t e i"
    and "mock_next_entity_id s e = mock_next_entity_id t e"
proof -
  have v: "mock_view s = mock_view t" using assms by (simp add: same_data_def)
  show "mock_entity_exists s e i = mock_entity_exists t e i"
    by (simp add: mock_exists_view v)
  show "mock_read_entity s e i = mock_read_entity t e i"
    by (simp add: mock_read_view v)
  show "mock_next_entity_id s e = mock_next_entity_id t e"
    unfolding mock_next_entity_id_def by (rule next_id_loop_cong) (simp add: used_ids_taken v)
qed

lemma same_data_writes:
  assumes "same_data s t"
  shows "fst (mock_write_entity e i d s) = fst (mock_write_entity e i d t)"
    and "same_data (snd (mock_write_entity e i d s)) (snd (mock_write_entity e i d t))"
    and "fst (mock_delete_entity e i s) = fst (mock_delete_entity e i t)"
    and "same_data (snd (mock_delete_entity e i s)) (snd (mock_delete_entity e i t))"
  using assms by (simp_all add: same_data_def mock_write_view mock_delete_view)

lemma same_data_list:
  assumes "same_data s t"
  shows "fst (handle_list mock_interface request e s) = fst (handle_list mock_interface request e t)"
proof -
  have ok: "mock_ok s" "mock_ok t" and v: "mock_view s = mock_view t"
    using assms by (simp_all add: same_data_def)
  let ?P = "listed (mock_view t) (name e)
    (get_query_param ''name'' request) (get_query_param ''tag'' request)"
  have "mset (mock_list_entity_ids s e) = mset (mock_list_entity_ids t e)"
    using ok v by (simp add: set_eq_iff_mset_eq_distinct [symmetric] mock_list_distinct mock_list_view)
  then have "sort (filter ?P (mock_list_entity_ids s e)) = sort (filter ?P (mock_list_entity_ids t e))"
    by (intro sort_eq_if_mset_eq) simp
  then show ?thesis
    using ok mock.filter_ids_eq [of s "mock_list_entity_ids s e" e]
      mock.filter_ids_eq [of t "mock_list_entity_ids t e" e] v
    by (simp add: handle_list_def mock_list_view)
qed

lemma same_data_handlers:
  assumes "same_data s t"
  shows "rel_prod (=) same_data (handle_post mock_interface request e s)
           (handle_post mock_interface request e t)"
    and "rel_prod (=) same_data (handle_get mock_interface request e i s)
           (handle_get mock_interface request e i t)"
    and "rel_prod (=) same_data (handle_put mock_interface request e i s)
           (handle_put mock_interface request e i t)"
    and "rel_prod (=) same_data (handle_delete mock_interface request e i s)
           (handle_delete mock_interface request e i t)"
    and "rel_prod (=) same_data (handle_list mock_interface request e s)
           (handle_list mock_interface request e t)"
  using assms same_data_list [OF assms, of request e]
  by (simp_all add: rel_prod_sel handle_post_def handle_get_def handle_put_def handle_delete_def
      handle_list_def case_prod_unfold Let_def same_data_reads [OF assms] same_data_writes [OF assms]
      split: sum.split)

text \<open>
  No answer of the API depends on the iteration order of the tables. On two stores that hold the
  same data every request gives the same response and leaves stores that hold the same data, so the
  order that the model chooses for \<open>std::unordered_map\<close> is immaterial.
\<close>

theorem crud_order_independent:
  assumes "same_data s t"
  shows "fst (crud_handle_request (mock_crud p) request s) =
      fst (crud_handle_request (mock_crud p) request t) \<and>
    same_data (snd (crud_handle_request (mock_crud p) request s))
      (snd (crud_handle_request (mock_crud p) request t))"
proof -
  have "rel_prod (=) same_data (crud_handle_request (mock_crud p) request s)
      (crud_handle_request (mock_crud p) request t)"
    using assms same_data_handlers [OF assms]
    by (simp add: crud_handle_request_def split: option.split)
  then show ?thesis by (simp add: rel_prod_sel)
qed

theorem crud_order_independent_witness:
  "\<exists>s t. s \<noteq> t \<and>
     fst (crud_handle_request (mock_crud ''/api'')
       (empty_request\<lparr>method := ''GET'', path := ''/api/Shoes''\<rparr>) s) =
     fst (crud_handle_request (mock_crud ''/api'')
       (empty_request\<lparr>method := ''GET'', path := ''/api/Shoes''\<rparr>) t)"
proof (intro exI conjI)
  let ?e = "\<lparr>name = ''Shoes''\<rparr>"
  let ?s = "snd (mock_write_entity ?e ''1'' ''a'' (snd (mock_write_entity ?e ''2'' ''b'' mock_empty)))"
  let ?t = "snd (mock_write_entity ?e ''2'' ''b'' (snd (mock_write_entity ?e ''1'' ''a'' mock_empty)))"
  show "?s \<noteq> ?t" by code_simp
  have "same_data ?s ?t"
    using mock_empty_view by (auto simp: same_data_def mock_write_view fun_eq_iff)
  from crud_order_independent [OF this, of "''/api''"
      "empty_request\<lparr>method := ''GET'', path := ''/api/Shoes''\<rparr>"]
  show "fst (crud_handle_request (mock_crud ''/api'')
       (empty_request\<lparr>method := ''GET'', path := ''/api/Shoes''\<rparr>) ?s) =
     fst (crud_handle_request (mock_crud ''/api'')
       (empty_request\<lparr>method := ''GET'', path := ''/api/Shoes''\<rparr>) ?t)"
    by (rule conjunct1)
qed

subsection \<open>The life of an entity\<close>

lemma path_with_id:
  assumes "CHR ''?'' \<notin> set p" "segment n" "segment i"
  shows "parse_entity_and_id_from_path p (p @ ''/'' @ n @ ''/'' @ i) = Some (\<lparr>name = n\<rparr>, i, True)"
  using parse_path_rest [of p "''/'' @ n @ ''/'' @ i" "[]"] split_two [OF assms(2), of i] assms
  by (simp add: query_part_def segment_def)

lemma path_without_id:
  assumes "CHR ''?'' \<notin> set p" "segment n"
  shows "parse_entity_and_id_from_path p (p @ ''/'' @ n) = Some (\<lparr>name = n\<rparr>, [], False)"
  using parse_path_rest [of p "''/'' @ n" "[]"] split_one [OF assms(2)] assms
  by (simp add: query_part_def segment_def)

lemma to_string_int_segment: "0 < k \<Longrightarrow> segment (to_string_int k)"
  using to_string_nat_digits [of "nat k"] by (auto simp: segment_def to_string_int_def isdigit_def)

lemma mock_next_int:
  assumes "length (mock_list_entity_ids s e) < nat INT_MAX"
  obtains k where "mock_next_entity_id s e = Inr (to_string_int k)" "0 < k" "k \<le> INT_MAX"
    "mock_view s (name e) (to_string_int k) = None"
proof -
  obtain i where i: "next_id_loop (used_ids (mock_list_entity_ids s e)) (name e) 1 = Inr i"
    using next_id_loop_room [of "used_ids (mock_list_entity_ids s e)" "name e"]
      length_used_ids [of "mock_list_entity_ids s e"] assms by auto
  then have "mock_next_entity_id s e = Inr i" by (simp add: mock_next_entity_id_def)
  moreover obtain k where "1 \<le> k" "k \<le> INT_MAX" "i = to_string_int k"
    using next_id_loop_Inr [OF i] by (auto simp: INT_MAX_def)
  ultimately show ?thesis using that [of k] mock_next_fresh [of s e i] by simp
qed

lemma mock_next_room:
  assumes "length (mock_list_entity_ids s e) < nat INT_MAX"
  obtains i where "mock_next_entity_id s e = Inr i" "mock_view s (name e) i = None" "segment i"
  using mock_next_int [OF assms] to_string_int_segment by metis

lemma view_drop_put: "v n i = None \<Longrightarrow> view_drop n i (view_put n i d v) = v"
  by (auto simp: fun_eq_iff)

lemma crud_life:
  assumes "mock_ok s" "length (mock_list_entity_ids s \<lparr>name = n\<rparr>) < nat INT_MAX"
    and "CHR ''?'' \<notin> set p" "segment n"
    and "method post = ''POST''" "path post = p @ ''/'' @ n"
    and "method get = ''GET''" "method del = ''DELETE''"
  shows "\<exists>i s1 s2. mock_view s n i = None \<and>
    crud_handle_request (mock_crud p) post s =
      (Inr (reply 201 ''Created'' ''application/json'' (id_body i)), s1) \<and>
    (path get = p @ ''/'' @ n @ ''/'' @ i \<and> path del = path get \<longrightarrow>
      crud_handle_request (mock_crud p) get s1 =
        (Inr (reply 200 ''OK'' ''application/json'' (body post)), s1) \<and>
      crud_handle_request (mock_crud p) del s1 =
        (Inr (reply 200 ''OK'' ''text/plain'' ''Entity deleted successfully''), s2) \<and>
      mock_view s2 = mock_view s \<and>
      crud_handle_request (mock_crud p) get s2 = (Inr entity_not_found, s2))"
proof -
  let ?e = "\<lparr>name = n\<rparr>"
  obtain i where i: "mock_next_entity_id s ?e = Inr i" "mock_view s n i = None" "segment i"
    using mock_next_room [OF assms(2)] by auto
  obtain s1 where s1: "mock_write_entity ?e i (body post) s = (True, s1)" "mock_ok s1"
    "mock_view s1 = view_put n i (body post) (mock_view s)"
    using mock.write_reliable [OF assms(1), of ?e i "body post"] by auto
  obtain s2 where s2: "mock_delete_entity ?e i s1 = (True, s2)"
    "mock_view s2 = view_drop n i (mock_view s1)"
    using mock.delete_reliable [OF s1(2), of ?e i] s1(3) by auto
  have post: "crud_handle_request (mock_crud p) post s =
      (Inr (reply 201 ''Created'' ''application/json'' (id_body i)), s1)"
    using path_without_id [OF assms(3,4)] assms(5,6) i(1) s1(1)
    by (simp add: crud_handle_request_def handle_post_def id_body_def)
  note two = path_with_id [OF assms(3,4) i(3)]
  have "mock_view s2 = mock_view s"
    using s2(2) s1(3) view_drop_put [of "mock_view s" n i, OF i(2)] by simp
  with post two i(2) s1(3) s2 assms(7,8) show ?thesis
    by (intro exI [of _ i] exI [of _ s1] exI [of _ s2])
      (simp add: crud_handle_request_def handle_get_def handle_delete_def mock_exists_view
        mock_read_view)
qed

text \<open>
  The life of an entity through the API. While the store has room, a POST to \<open>prefix/Entity\<close>
  answers 201 with a new id; a GET of \<open>prefix/Entity/id\<close> then answers 200 with exactly the posted
  body; a DELETE of it answers 200 and puts the stored data back to what they were before the POST;
  and a GET after that answers 404.
\<close>

theorem crud_life_cycle:
  assumes "mock_ok s" "length (mock_list_entity_ids s \<lparr>name = n\<rparr>) < nat INT_MAX"
    and "CHR ''?'' \<notin> set p" "segment n"
    and "method post = ''POST''" "path post = p @ ''/'' @ n"
    and "method get = ''GET''" "method del = ''DELETE''"
  shows "\<exists>i s1 s2. mock_view s n i = None \<and>
    crud_handle_request (mock_crud p) post s =
      (Inr (reply 201 ''Created'' ''application/json'' (id_body i)), s1) \<and>
    (path get = p @ ''/'' @ n @ ''/'' @ i \<and> path del = path get \<longrightarrow>
      crud_handle_request (mock_crud p) get s1 =
        (Inr (reply 200 ''OK'' ''application/json'' (body post)), s1) \<and>
      crud_handle_request (mock_crud p) del s1 =
        (Inr (reply 200 ''OK'' ''text/plain'' ''Entity deleted successfully''), s2) \<and>
      mock_view s2 = mock_view s \<and>
      crud_handle_request (mock_crud p) get s2 = (Inr entity_not_found, s2))"
  by (rule crud_life [OF assms])

theorem crud_life_cycle_witness:
  "\<exists>i s1 s2. mock_view mock_empty ''Shoes'' i = None \<and>
    crud_handle_request (mock_crud ''/api'')
      (empty_request\<lparr>method := ''POST'', path := ''/api'' @ ''/'' @ ''Shoes'', body := ''x''\<rparr>) mock_empty =
      (Inr (reply 201 ''Created'' ''application/json'' (id_body i)), s1)"
proof -
  let ?post = "empty_request\<lparr>method := ''POST'', path := ''/api'' @ ''/'' @ ''Shoes'', body := ''x''\<rparr>"
  have "length (mock_list_entity_ids mock_empty \<lparr>name = ''Shoes''\<rparr>) < nat INT_MAX"
    and "CHR ''?'' \<notin> set ''/api''" and "segment ''Shoes''"
    by code_simp+
  from crud_life_cycle [OF mock_empty_view(2) this, of ?post
      "empty_request\<lparr>method := ''GET''\<rparr>" "empty_request\<lparr>method := ''DELETE''\<rparr>"]
  show ?thesis by auto
qed

section \<open>The field that a filter reads\<close>

lemma drop_length_append: "drop (length a) (a @ b) = b"
  by simp

lemma str_find_from_append:
  "str_find_from pat (length a) (a @ s) = map_option (\<lambda>i. length a + i) (str_find pat s)"
  by (simp add: str_find_from_def)

text \<open>
  \<open>extract_json_field\<close> finds a string field. When the first occurrence of the quoted field name is
  followed by a colon (with no colon before it), blanks and a quoted value, the result is exactly that
  value, up to its closing quote; escapes are not interpreted. Without the quoted field name the
  result is empty.
\<close>

theorem extract_json_field_value:
  assumes "str_find (DQUOTE # f @ [DQUOTE]) json = Some (length pre)"
    and "json = pre @ (DQUOTE # f @ [DQUOTE]) @ w1 @ '':'' @ w2 @ (DQUOTE # v @ [DQUOTE]) @ post"
    and "CHR '':'' \<notin> set f" "CHR '':'' \<notin> set w1" "set w2 \<subseteq> {SP, TAB, LF}" "DQUOTE \<notin> set v"
    and "\<not> contains (DQUOTE # f @ [DQUOTE]) other"
  shows "extract_json_field json f = v \<and> extract_json_field other f = []"
proof
  let ?q = "DQUOTE # f @ [DQUOTE]" and ?quoted = "(DQUOTE # v @ [DQUOTE]) @ post"
  define colon where "colon = length pre + length (?q @ w1)"
  have s1: "json = (pre @ ?q @ w1) @ CHR '':'' # w2 @ ?quoted" by (simp add: assms(2))
  have "str_find '':'' ((?q @ w1) @ CHR '':'' # w2 @ ?quoted) = Some (length (?q @ w1))"
    using assms(3,4) by (intro str_find_char) auto
  then have colon: "str_find_from '':'' (length pre) json = Some colon"
    using str_find_from_append [of "'':''" pre] s1 by (simp add: colon_def)
  have after: "drop (colon + 1) json = w2 @ ?quoted"
  proof -
    have j: "json = ((pre @ ?q @ w1) @ '':'') @ w2 @ ?quoted" by (simp add: assms(2))
    have l: "colon + 1 = length ((pre @ ?q @ w1) @ '':'')" by (simp add: colon_def)
    show ?thesis by (subst j, subst l, rule drop_length_append)
  qed
  have "takeWhile (\<lambda>c. c \<in> set [SP, TAB, LF]) (w2 @ DQUOTE # v @ DQUOTE # post) = w2"
    using assms(5) by (intro takeWhile_append_stop) auto
  then have skip: "find_first_not_of [SP, TAB, LF] (w2 @ ?quoted) = Some (length w2)"
    by (simp add: find_first_not_of_eq)
  define start where "start = colon + 1 + length w2"
  define front where "front = pre @ ?q @ w1 @ '':'' @ w2"
  have s2: "json = front @ DQUOTE # v @ DQUOTE # post" by (simp add: assms(2) front_def)
  have start: "start = length front" by (simp add: start_def front_def colon_def)
  have at: "json ! start = DQUOTE" by (simp add: s2 start)
  have s3: "json = (front @ [DQUOTE]) @ v @ DQUOTE # post" by (simp add: s2)
  have "str_find [DQUOTE] (v @ DQUOTE # post) = Some (length v)"
    using assms(6) by simp
  then have close: "str_find_from [DQUOTE] (start + 1) json = Some (start + 1 + length v)"
    using str_find_from_append [of "[DQUOTE]" "front @ [DQUOTE]"] s3 start by simp
  have "take (length v) (drop (start + 1) json) = v"
    by (simp add: s2 start)
  then show "extract_json_field json f = v"
    using assms(1) colon after skip at close
    by (simp add: extract_json_field_def start_def [symmetric] del: One_nat_def)
  show "extract_json_field other f = []"
    using assms(7) by (simp add: extract_json_field_def contains_def)
qed

theorem extract_json_field_value_witness:
  "extract_json_field (''{ '' @ [DQUOTE] @ ''name'' @ [DQUOTE] @ '': '' @ [DQUOTE] @ ''Nike'' @ [DQUOTE] @ '' }'')
     ''name'' = ''Nike'' \<and> extract_json_field ''{}'' ''name'' = []"
  by (rule extract_json_field_value [where pre = "''{ ''" and ?w1.0 = "[]" and ?w2.0 = "'' ''"
        and post = "'' }''"]) code_simp+

end
