(* ===== verification/Crud_Steps.thy ===== *)
theory Crud_Steps
  imports Crud_Handler
begin

text \<open>
  The handlers of src/crud_handler.cc as programs over the calls of \<open>FilesystemInterface\<close>. A program is
  done, with the response or the exception that leaves the handler, or it makes a call and goes on with
  its result. Run without interruption a program is the handler of \<open>Crud_Handler\<close>; run by several
  threads, each call is one step (\<open>Crud_Interleaving\<close>).
\<close>

section \<open>Programs\<close>

datatype crud_program =
    Done "http_response outcome"
  | Call_exists entity string "bool \<Rightarrow> crud_program"
  | Call_write entity string string "bool \<Rightarrow> crud_program"
  | Call_delete entity string "bool \<Rightarrow> crud_program"
  | Call_read entity string "string outcome \<Rightarrow> crud_program"
  | Call_list entity "string list \<Rightarrow> crud_program"
  | Call_next entity "string outcome \<Rightarrow> crud_program"

fun next_call ::
  "'fs filesystem_interface \<Rightarrow> crud_program \<Rightarrow> 'fs \<Rightarrow> crud_program \<times> 'fs" where
  "next_call fs (Done r) s = (Done r, s)"
| "next_call fs (Call_exists e i k) s = (k (entity_exists fs s e i), s)"
| "next_call fs (Call_write e i d k) s = (let (ok, s) = write_entity fs e i d s in (k ok, s))"
| "next_call fs (Call_delete e i k) s = (let (ok, s) = delete_entity fs e i s in (k ok, s))"
| "next_call fs (Call_read e i k) s = (k (read_entity fs s e i), s)"
| "next_call fs (Call_list e k) s = (k (list_entity_ids fs s e), s)"
| "next_call fs (Call_next e k) s = (k (next_entity_id fs s e), s)"

fun is_done :: "crud_program \<Rightarrow> bool" where
  "is_done (Done r) \<longleftrightarrow> True"
| "is_done _ \<longleftrightarrow> False"

primrec run_alone ::
  "'fs filesystem_interface \<Rightarrow> crud_program \<Rightarrow> 'fs \<Rightarrow> http_response outcome \<times> 'fs" where
  "run_alone fs (Done r) = (\<lambda>s. (r, s))"
| "run_alone fs (Call_exists e i k) = (\<lambda>s. run_alone fs (k (entity_exists fs s e i)) s)"
| "run_alone fs (Call_write e i d k) =
     (\<lambda>s. let (ok, s) = write_entity fs e i d s in run_alone fs (k ok) s)"
| "run_alone fs (Call_delete e i k) =
     (\<lambda>s. let (ok, s) = delete_entity fs e i s in run_alone fs (k ok) s)"
| "run_alone fs (Call_read e i k) = (\<lambda>s. run_alone fs (k (read_entity fs s e i)) s)"
| "run_alone fs (Call_list e k) = (\<lambda>s. run_alone fs (k (list_entity_ids fs s e)) s)"
| "run_alone fs (Call_next e k) = (\<lambda>s. run_alone fs (k (next_entity_id fs s e)) s)"

section \<open>The handlers\<close>

definition post_program :: "http_request \<Rightarrow> entity \<Rightarrow> crud_program" where
  "post_program request e =
     Call_next e (\<lambda>allocated.
       case allocated of
         Inl ex \<Rightarrow>
           Done (if is_exception ex
                 then Inr (reply 500 ''Internal Server Error'' ''text/plain''
                             (''Failed to allocate ID: '' @ what ex))
                 else Inl ex)
       | Inr new_id \<Rightarrow>
           Call_write e new_id (body request) (\<lambda>ok.
             Done (Inr (if \<not> ok
                        then reply 500 ''Internal Server Error'' ''text/plain'' ''Failed to store entity''
                        else reply 201 ''Created'' ''application/json'' (id_body new_id)))))"

definition get_program :: "entity \<Rightarrow> string \<Rightarrow> crud_program" where
  "get_program e i =
     Call_exists e i (\<lambda>there.
       if \<not> there then Done (Inr entity_not_found)
       else Call_read e i (\<lambda>entity_data.
              Done (andThen entity_data (\<lambda>d. Inr (reply 200 ''OK'' ''application/json'' d)))))"

definition put_program :: "http_request \<Rightarrow> entity \<Rightarrow> string \<Rightarrow> crud_program" where
  "put_program request e i =
     Call_exists e i (\<lambda>there.
       if \<not> there then Done (Inr entity_not_found)
       else Call_write e i (body request) (\<lambda>ok.
              Done (Inr (if \<not> ok
                         then reply 500 ''Internal Server Error'' ''text/plain'' ''Failed to update entity''
                         else reply 200 ''OK'' ''application/json'' (body request)))))"

definition delete_program :: "entity \<Rightarrow> string \<Rightarrow> crud_program" where
  "delete_program e i =
     Call_exists e i (\<lambda>there.
       if \<not> there then Done (Inr entity_not_found)
       else Call_delete e i (\<lambda>ok.
              Done (Inr (if \<not> ok
                         then reply 500 ''Internal Server Error'' ''text/plain'' ''Failed to delete entity''
                         else reply 200 ''OK'' ''text/plain'' ''Entity deleted successfully''))))"

text \<open>The loop of the list request: \<open>filtered\<close> is the vector \<open>filtered_ids\<close> so far.\<close>

fun filter_program ::
  "entity \<Rightarrow> string option \<Rightarrow> string option \<Rightarrow> string list \<Rightarrow> string list \<Rightarrow> crud_program" where
  "filter_program e name_filter tag_filter [] filtered =
     Done (Inr (reply 200 ''OK'' ''application/json'' (''['' @ join_ids (sort filtered) @ '']'')))"
| "filter_program e name_filter tag_filter (i # ids) filtered =
     (if name_filter = None \<and> tag_filter = None
      then filter_program e name_filter tag_filter ids (filtered @ [i])
      else Call_read e i (\<lambda>entity_data.
        case entity_data of
          Inl ex \<Rightarrow> Done (Inl ex)
        | Inr d \<Rightarrow>
            filter_program e name_filter tag_filter ids
              (if field_matches name_filter d ''name'' \<and> field_matches tag_filter d ''tag''
               then filtered @ [i] else filtered)))"

definition list_program :: "http_request \<Rightarrow> entity \<Rightarrow> crud_program" where
  "list_program request e =
     Call_list e (\<lambda>ids.
       filter_program e (get_query_param ''name'' request) (get_query_param ''tag'' request) ids [])"

definition request_program :: "string \<Rightarrow> http_request \<Rightarrow> crud_program" where
  "request_program route_prefix request =
     (case parse_entity_and_id_from_path route_prefix (path request) of
        None \<Rightarrow> Done (Inr (bad_request ''Invalid CRUD path''))
      | Some (e, i, has_id) \<Rightarrow>
          if method request = ''POST'' then
            (if has_id then Done (Inr (bad_request ''POST must not include ID in path''))
             else post_program request e)
          else if method request = ''GET'' then
            (if has_id then get_program e i else list_program request e)
          else if method request = ''PUT'' then
            (if \<not> has_id then Done (Inr (bad_request ''PUT must include ID in path''))
             else put_program request e i)
          else if method request = ''DELETE'' then
            (if \<not> has_id then Done (Inr (bad_request ''DELETE must include ID in path''))
             else delete_program e i)
          else Done (Inr (reply 501 ''Not Implemented'' ''text/plain''
                            ''CRUD method not implemented yet'')))"

section \<open>A program that is not interrupted is the handler\<close>

lemma run_alone_step: "run_alone fs p s = case_prod (run_alone fs) (next_call fs p s)"
  by (cases p) (simp_all add: Let_def split: prod.split)

text \<open>Induction along the calls of a program, whatever they answer.\<close>

lemma next_call_induct [case_names Done Next]:
  assumes "\<And>r. P (Done r)"
    and "\<And>p. \<not> is_done p \<Longrightarrow> (\<And>s. P (fst (next_call fs p s))) \<Longrightarrow> P p"
  shows "P p"
proof (induction p)
  case (Done r)
  show ?case by (rule assms(1))
qed (rule assms(2), simp, simp add: case_prod_unfold Let_def)+

lemma run_filter_program:
  "run_alone fs (filter_program e nf tf ids filtered) s =
     (andThen (filter_ids fs s e nf tf ids) (\<lambda>rest.
        Inr (reply 200 ''OK'' ''application/json'' (''['' @ join_ids (sort (filtered @ rest)) @ '']''))), s)"
proof (induction ids arbitrary: filtered)
  case (Cons i ids)
  show ?case
  proof (cases "nf = None \<and> tf = None")
    case True
    with Cons show ?thesis by (simp add: andThen_assoc)
  next
    case False
    then have skip: "(nf = None \<and> tf = None) = False" by simp
    show ?thesis
    proof (cases "read_entity fs s e i")
      case (Inr d)
      with skip Cons show ?thesis
        by (cases "field_matches nf d ''name'' \<and> field_matches tf d ''tag''")
          (simp_all only: filter_program.simps filter_ids.simps if_False if_True run_alone.simps
            sum.case andThen.simps andThen_assoc Let_def, simp_all)
    qed (simp only: filter_program.simps filter_ids.simps skip if_False run_alone.simps sum.case andThen.simps)
  qed
qed simp

lemma run_post_program: "run_alone fs (post_program request e) s = handle_post fs request e s"
  by (simp add: post_program_def handle_post_def id_body_def split: sum.split prod.split)

lemma run_get_program: "run_alone fs (get_program e i) s = handle_get fs request e i s"
  by (simp add: get_program_def handle_get_def)

lemma run_put_program: "run_alone fs (put_program request e i) s = handle_put fs request e i s"
  by (simp add: put_program_def handle_put_def split: prod.split)

lemma run_delete_program: "run_alone fs (delete_program e i) s = handle_delete fs request e i s"
  by (simp add: delete_program_def handle_delete_def split: prod.split)

lemma run_list_program: "run_alone fs (list_program request e) s = handle_list fs request e s"
  by (simp add: list_program_def handle_list_def run_filter_program)

lemmas run_programs =
  run_post_program run_get_program run_put_program run_delete_program run_list_program

lemma run_request_program:
  "run_alone fs (request_program p request) s =
     crud_handle_request \<lparr>crud_prefix = p, backend = fs\<rparr> request s"
  by (simp add: request_program_def crud_handle_request_def run_programs [where request = request]
      split: option.split)


end
