(* ===== verification/Crud_Interleaving.thy ===== *)
theory Crud_Interleaving
  imports Crud_Steps
begin

text \<open>
  Handlers of src/crud_handler.cc on several worker threads and one \<open>MockFilesystem\<close>: a list of programs
  of which a step makes the next call of one. The calls themselves are atomic here, which the code does
  not guarantee (there is no lock); what goes wrong below goes wrong even so. A schedule says which
  thread is next.
\<close>

section \<open>Threads\<close>

fun run_threads ::
  "'fs filesystem_interface \<Rightarrow> nat list \<Rightarrow> crud_program list \<Rightarrow> 'fs \<Rightarrow> crud_program list \<times> 'fs" where
  "run_threads fs [] ps s = (ps, s)"
| "run_threads fs (k # ks) ps s =
     (if k < length ps
      then (let (p, s) = next_call fs (ps ! k) s in run_threads fs ks (ps[k := p]) s)
      else run_threads fs ks ps s)"

lemma run_threads_invariant:
  assumes "run_threads fs ks ps s = (ps', s')" "I ps s"
    and "\<And>k ps s. I ps s \<Longrightarrow> k < length ps \<Longrightarrow>
      I (ps[k := fst (next_call fs (ps ! k) s)]) (snd (next_call fs (ps ! k) s))"
  shows "I ps' s'"
  using assms(1,2)
proof (induction ks arbitrary: ps s)
  case (Cons k ks)
  then show ?case
    using assms(3) [of ps s k] by (auto simp: Let_def case_prod_unfold split: if_splits)
qed simp

section \<open>Requests for different types do not interfere\<close>

text \<open>The entity types that a program or a request touches, and stores that agree on them.\<close>

primrec within :: "string set \<Rightarrow> crud_program \<Rightarrow> bool" where
  "within N (Done r) \<longleftrightarrow> True"
| "within N (Call_exists e i k) \<longleftrightarrow> name e \<in> N \<and> (\<forall>b. within N (k b))"
| "within N (Call_write e i d k) \<longleftrightarrow> name e \<in> N \<and> (\<forall>b. within N (k b))"
| "within N (Call_delete e i k) \<longleftrightarrow> name e \<in> N \<and> (\<forall>b. within N (k b))"
| "within N (Call_read e i k) \<longleftrightarrow> name e \<in> N \<and> (\<forall>d. within N (k d))"
| "within N (Call_list e k) \<longleftrightarrow> name e \<in> N \<and> (\<forall>ids. within N (k ids))"
| "within N (Call_next e k) \<longleftrightarrow> name e \<in> N \<and> (\<forall>r. within N (k r))"

definition types_of :: "string \<Rightarrow> http_request \<Rightarrow> string set" where
  "types_of p q =
     (case parse_entity_and_id_from_path p (path q) of None \<Rightarrow> {} | Some (e, i, has_id) \<Rightarrow> {name e})"

lemma within_filter_program: "name e \<in> N \<Longrightarrow> within N (filter_program e nf tf ids acc)"
  by (induction e nf tf ids acc rule: filter_program.induct) (auto split: sum.split)

lemma within_request_program: "within (types_of p q) (request_program p q)"
  by (auto simp: types_of_def request_program_def post_program_def get_program_def put_program_def
      delete_program_def list_program_def within_filter_program split: option.split sum.split)

definition same_on :: "string set \<Rightarrow> mock_filesystem \<Rightarrow> mock_filesystem \<Rightarrow> bool" where
  "same_on N s t \<longleftrightarrow> (\<forall>n \<in> N. map_of (data s) n = map_of (data t) n)"

lemma same_on_trans: "same_on N s t \<Longrightarrow> same_on N t u \<Longrightarrow> same_on N s u"
  by (simp add: same_on_def)

lemma same_on_reads:
  assumes "same_on N s t" "name e \<in> N"
  shows "mock_entity_exists s e i = mock_entity_exists t e i"
    "mock_read_entity s e i = mock_read_entity t e i"
    "mock_list_entity_ids s e = mock_list_entity_ids t e"
    "mock_next_entity_id s e = mock_next_entity_id t e"
  using assms
  by (simp_all add: same_on_def mock_entity_exists_def mock_read_entity_def mock_list_entity_ids_def
      mock_next_entity_id_def)

lemma same_on_writes:
  assumes "same_on N s t" "name e \<in> N"
  shows "fst (mock_write_entity e i d s) = fst (mock_write_entity e i d t)"
    "same_on N (snd (mock_write_entity e i d s)) (snd (mock_write_entity e i d t))"
    "fst (mock_delete_entity e i s) = fst (mock_delete_entity e i t)"
    "same_on N (snd (mock_delete_entity e i s)) (snd (mock_delete_entity e i t))"
  using assms
  by (auto simp: same_on_def mock_write_entity_def mock_delete_entity_def Let_def split: option.split)

lemma next_call_same:
  assumes "within N p" "same_on N s t"
  shows "fst (next_call mock_interface p s) = fst (next_call mock_interface p t)"
    "same_on N (snd (next_call mock_interface p s)) (snd (next_call mock_interface p t))"
  using assms same_on_reads [OF assms(2)] same_on_writes [OF assms(2)]
  by (cases p; simp add: case_prod_unfold Let_def)+

lemma next_call_within: "within N p \<Longrightarrow> within N (fst (next_call mock_interface p s))"
  by (cases p) (simp_all add: case_prod_unfold Let_def)

lemma next_call_frame:
  assumes "within N p" "M \<inter> N = {}"
  shows "same_on M (snd (next_call mock_interface p s)) s"
  using assms
  by (cases p) (auto simp: same_on_def case_prod_unfold Let_def mock_write_entity_def
      mock_delete_entity_def split: option.split)

lemma run_alone_same:
  "within N p \<Longrightarrow> same_on N s t \<Longrightarrow>
     fst (run_alone mock_interface p s) = fst (run_alone mock_interface p t) \<and>
     same_on N (snd (run_alone mock_interface p s)) (snd (run_alone mock_interface p t))"
  by (induction p arbitrary: s t)
    (simp_all add: same_on_reads same_on_writes case_prod_unfold Let_def)

text \<open>
  Requests for different entity types do not interfere. Let any number of requests run on one store,
  no two of them for the same type, in any interleaving of their calls: every request that has been
  answered has the answer it would have had alone on the store as it was at the start, and the data of
  its type are as it would have left them.
\<close>

theorem separate_types_independent:
  assumes "run_threads mock_interface schedule (map (\<lambda>(p, q). request_program p q) requests) s = (ps, t)"
    and "\<forall>j < length requests. \<forall>k < length requests. j \<noteq> k \<longrightarrow>
      case_prod types_of (requests ! j) \<inter> case_prod types_of (requests ! k) = {}"
    and "k < length requests" "requests ! k = (p, q)" "ps ! k = Done r"
  shows "r = fst (crud_handle_request (mock_crud p) q s) \<and>
    (\<forall>n \<in> types_of p q.
       mock_view t n = mock_view (snd (crud_handle_request (mock_crud p) q s)) n)"
proof -
  let ?N = "\<lambda>j. case_prod types_of (requests ! j)"
  let ?alone = "run_alone mock_interface"
  let ?I = "\<lambda>ps t. length ps = length requests \<and> (\<forall>j < length requests. within (?N j) (ps ! j)) \<and>
    fst (?alone (ps ! k) t) = fst (?alone (request_program p q) s) \<and>
    same_on (?N k) (snd (?alone (ps ! k) t)) (snd (?alone (request_program p q) s))"
  have "?I ps t"
  proof (rule run_threads_invariant [where I = ?I, OF assms(1)])
    show "?I (map (\<lambda>(p, q). request_program p q) requests) s"
      using assms(3,4) within_request_program by (auto simp: same_on_def case_prod_unfold)
  next
    fix j ps t
    assume I: "?I ps t" and j: "j < length ps"
    let ?p = "fst (next_call mock_interface (ps ! j) t)" and ?t = "snd (next_call mock_interface (ps ! j) t)"
    have "fst (?alone (ps[j := ?p] ! k) ?t) = fst (?alone (ps ! k) t) \<and>
        same_on (?N k) (snd (?alone (ps[j := ?p] ! k) ?t)) (snd (?alone (ps ! k) t))"
    proof (cases "j = k")
      case True
      then show ?thesis
        using j run_alone_step [of mock_interface "ps ! k" t] by (simp add: case_prod_unfold same_on_def)
    next
      case False
      then have "?N k \<inter> ?N j = {}" using assms(2,3) I j by auto
      then have "same_on (?N k) ?t t" using I j by (intro next_call_frame) auto
      then show ?thesis using False I assms(3) run_alone_same by auto
    qed
    moreover have "\<forall>i < length requests. within (?N i) (ps[j := ?p] ! i)"
      using I j by (simp add: nth_list_update next_call_within)
    ultimately show "?I (ps[j := ?p]) ?t"
      using I by (auto intro: same_on_trans)
  qed
  then show ?thesis
    using assms(4,5)
    by (simp add: run_request_program same_on_def mock_view_def fun_eq_iff)
qed

theorem separate_types_independent_witness:
  "\<exists>ps t. run_threads mock_interface [0, 1, 1, 0]
       [request_program ''/api'' (empty_request\<lparr>path := ''/api/A'', method := ''POST'', body := ''a''\<rparr>),
        request_program ''/api'' (empty_request\<lparr>path := ''/api/B'', method := ''POST'', body := ''b''\<rparr>)]
       mock_empty = (ps, t) \<and>
     ps ! 0 = Done (fst (crud_handle_request (mock_crud ''/api'')
       (empty_request\<lparr>path := ''/api/A'', method := ''POST'', body := ''a''\<rparr>) mock_empty))"
proof -
  let ?a = "empty_request\<lparr>path := ''/api/A'', method := ''POST'', body := ''a''\<rparr>"
  let ?b = "empty_request\<lparr>path := ''/api/B'', method := ''POST'', body := ''b''\<rparr>"
  let ?qs = "[(''/api'', ?a), (''/api'', ?b)]"
  obtain ps t where run: "run_threads mock_interface [0, 1, 1, 0]
      (map (\<lambda>(p, q). request_program p q) ?qs) mock_empty = (ps, t)" by fastforce
  have parsed: "parse_entity_and_id_from_path ''/api'' (path ?a) = Some (\<lparr>name = ''A''\<rparr>, [], False)"
    "parse_entity_and_id_from_path ''/api'' (path ?b) = Some (\<lparr>name = ''B''\<rparr>, [], False)" by code_simp+
  then have programs: "request_program ''/api'' ?a = post_program ?a \<lparr>name = ''A''\<rparr>"
    "request_program ''/api'' ?b = post_program ?b \<lparr>name = ''B''\<rparr>" by (simp_all add: request_program_def)
  have ids: "mock_next_entity_id mock_empty \<lparr>name = ''A''\<rparr> = Inr ''1''"
    "mock_next_entity_id mock_empty \<lparr>name = ''B''\<rparr> = Inr ''1''" by code_simp+
  have "\<exists>r. ps ! 0 = Done r"
    using run by (auto simp: programs post_program_def ids Let_def case_prod_unfold)
  then obtain r where r: "ps ! 0 = Done r" ..
  have apart: "\<forall>j < length ?qs. \<forall>k < length ?qs. j \<noteq> k \<longrightarrow>
      case_prod types_of (?qs ! j) \<inter> case_prod types_of (?qs ! k) = {}"
    using parsed by (auto simp: types_of_def less_Suc_eq)
  from separate_types_independent [OF run apart, of 0 "''/api''" ?a r] r run show ?thesis by simp
qed

end
