(* ===== verification/Crud_Anomalies.thy ===== *)
theory Crud_Anomalies
  imports Crud_Interleaving
begin

text \<open>
  What interleaved requests for the same entity type do (src/crud_handler.cc on several threads). Without
  a DELETE among them no request fails; a DELETE between the two calls of another request makes a GET
  raise, a PUT bring the entity back and a second DELETE fail; and POSTs are told the same id.
\<close>

section \<open>Without deletion nothing raises\<close>

definition present :: "store_view \<Rightarrow> (string \<times> string) set" where
  "present v = {(n, i). v n i \<noteq> None}"

text \<open>A program that raises nothing as long as the entities of \<open>P\<close>, and those it has seen, stay.\<close>

primrec safe :: "crud_program \<Rightarrow> (string \<times> string) set \<Rightarrow> bool" where
  "safe (Done r) = (\<lambda>P. \<exists>x. r = Inr x \<and> sendable x)"
| "safe (Call_exists e i k) = (\<lambda>P. safe (k False) P \<and> safe (k True) (insert (name e, i) P))"
| "safe (Call_write e i d k) = (\<lambda>P. \<forall>ok. safe (k ok) P)"
| "safe (Call_delete e i k) = (\<lambda>P. False)"
| "safe (Call_read e i k) = (\<lambda>P. (name e, i) \<in> P \<and> (\<forall>d. safe (k (Inr d)) P))"
| "safe (Call_list e k) = (\<lambda>P. \<forall>ids. safe (k ids) (P \<union> Pair (name e) ` set ids))"
| "safe (Call_next e k) =
     (\<lambda>P. (\<forall>x. is_exception x \<longrightarrow> safe (k (Inl x)) P) \<and> (\<forall>i. safe (k (Inr i)) P))"

lemma safe_mono: "safe p P \<Longrightarrow> P \<subseteq> Q \<Longrightarrow> safe p Q"
proof (induction p arbitrary: P Q)
  case (Call_exists e i k)
  have "safe (k False) Q" by (rule Call_exists.IH [of _ P]) (use Call_exists.prems in auto)
  moreover have "safe (k True) (insert (name e, i) Q)"
    by (rule Call_exists.IH [of _ "insert (name e, i) P"]) (use Call_exists.prems in auto)
  ultimately show ?case by simp
next
  case (Call_list e k)
  have "safe (k ids) (Q \<union> Pair (name e) ` set ids)" for ids
    by (rule Call_list.IH [of _ "P \<union> Pair (name e) ` set ids"]) (use Call_list.prems in auto)
  then show ?case by simp
next
  case (Call_next e k)
  have "safe (k r) P \<Longrightarrow> safe (k r) Q" for r
    by (rule Call_next.IH [of _ P]) (use Call_next.prems in auto)
  with Call_next.prems(1) show ?case by simp
next
  case (Call_write e i d k)
  have "safe (k r) P \<Longrightarrow> safe (k r) Q" for r
    by (rule Call_write.IH [of _ P]) (use Call_write.prems in auto)
  with Call_write.prems(1) show ?case by simp
next
  case (Call_read e i k)
  have "safe (k r) P \<Longrightarrow> safe (k r) Q" for r
    by (rule Call_read.IH [of _ P]) (use Call_read.prems in auto)
  with Call_read.prems show ?case by auto
qed simp_all

lemma safe_filter_program:
  "Pair (name e) ` set ids \<subseteq> P \<Longrightarrow> safe (filter_program e nf tf ids acc) P"
  by (induction e nf tf ids acc rule: filter_program.induct) auto

lemma safe_request_program:
  "method q \<noteq> ''DELETE'' \<Longrightarrow> safe (request_program p q) P"
  by (simp add: request_program_def post_program_def get_program_def put_program_def list_program_def
      bad_request_def entity_not_found_def safe_filter_program split: option.split)

context filesystem
begin

lemma next_call_safe:
  assumes "invar s" "safe p (present (view s))"
  shows "invar (snd (next_call fs p s))"
    "present (view s) \<subseteq> present (view (snd (next_call fs p s)))"
    "safe (fst (next_call fs p s)) (present (view (snd (next_call fs p s))))"
proof -
  have "invar (snd (next_call fs p s)) \<and> present (view s) \<subseteq> present (view (snd (next_call fs p s))) \<and>
      safe (fst (next_call fs p s)) (present (view (snd (next_call fs p s))))"
  proof (cases p)
    case (Call_exists e i k)
    then show ?thesis
      using assms exists_view [OF assms(1), of e i]
      by (cases "entity_exists fs s e i") (auto simp: present_def insert_absorb)
  next
    case (Call_write e i d k)
    obtain ok s' where w: "write_entity fs e i d s = (ok, s')" by fastforce
    have grows: "present (view s) \<subseteq> present (view s')"
      using write_view [OF assms(1) w] by (auto simp: present_def)
    have "safe (k ok) (present (view s'))"
      using assms(2) Call_write by (intro safe_mono [OF _ grows]) simp
    with grows show ?thesis using Call_write w write_view [OF assms(1) w] by simp
  next
    case (Call_read e i k)
    with assms obtain d where "view s (name e) i = Some d" by (auto simp: present_def)
    from read_view [OF assms(1) this] show ?thesis using Call_read assms by simp
  next
    case (Call_list e k)
    have "Pair (name e) ` set (list_entity_ids fs s e) \<subseteq> present (view s)"
      using list_view [OF assms(1), of e] by (auto simp: present_def)
    then have "present (view s) \<union> Pair (name e) ` set (list_entity_ids fs s e) = present (view s)" by blast
    moreover have "safe (k (list_entity_ids fs s e))
        (present (view s) \<union> Pair (name e) ` set (list_entity_ids fs s e))"
      using assms(2) Call_list by simp
    ultimately show ?thesis using Call_list assms by simp
  next
    case (Call_next e k)
    then show ?thesis
      using assms next_exception [OF assms(1), of e] by (cases "next_entity_id fs s e") auto
  qed (use assms in auto)
  then show "invar (snd (next_call fs p s))"
    "present (view s) \<subseteq> present (view (snd (next_call fs p s)))"
    "safe (fst (next_call fs p s)) (present (view (snd (next_call fs p s))))"
    by blast+
qed

lemma run_threads_safe:
  assumes "run_threads fs schedule ps s = (ps', t)" "invar s"
    and "\<forall>p \<in> set ps. safe p (present (view s))"
  shows "invar t \<and> present (view s) \<subseteq> present (view t) \<and> (\<forall>p \<in> set ps'. safe p (present (view t)))"
proof (rule run_threads_invariant [OF assms(1), where I = "\<lambda>ps u. invar u \<and>
    present (view s) \<subseteq> present (view u) \<and> (\<forall>p \<in> set ps. safe p (present (view u)))"])
  fix k ps u
  assume I: "invar u \<and> present (view s) \<subseteq> present (view u) \<and> (\<forall>p \<in> set ps. safe p (present (view u)))"
    and k: "k < length ps"
  let ?p = "fst (next_call fs (ps ! k) u)" and ?u = "snd (next_call fs (ps ! k) u)"
  have "safe (ps ! k) (present (view u))" using I k by simp
  note stays = next_call_safe [OF _ this]
  have "\<forall>p \<in> set (ps[k := ?p]). safe p (present (view ?u))"
    using I stays safe_mono set_update_subset_insert [of ps k ?p] by blast
  with I stays show "invar ?u \<and> present (view s) \<subseteq> present (view ?u) \<and>
      (\<forall>p \<in> set (ps[k := ?p]). safe p (present (view ?u)))"
    by blast
qed (use assms in simp)

end

text \<open>
  C15: without a DELETE, concurrency raises nothing. Any number of requests, none of them a DELETE, in any
  interleaving of their calls: every request that has been answered was answered with a response that
  can be sent, no exception has left a handler, the store is well formed and no entity is gone.
\<close>

theorem no_delete_no_exception:
  assumes "mock_ok s" "\<forall>(p, q) \<in> set requests. method q \<noteq> ''DELETE''"
    and "run_threads mock_interface schedule (map (\<lambda>(p, q). request_program p q) requests) s = (ps, t)"
  shows "(\<forall>r. Done r \<in> set ps \<longrightarrow> (\<exists>x. r = Inr x \<and> sendable x)) \<and> mock_ok t \<and>
    present (mock_view s) \<subseteq> present (mock_view t)"
proof -
  have "\<forall>p \<in> set (map (\<lambda>(p, q). request_program p q) requests). safe p (present (mock_view s))"
    using assms(2) by (auto intro: safe_request_program)
  from mock.run_threads_safe [OF assms(3,1) this] show ?thesis by force
qed

theorem no_delete_no_exception_witness:
  "\<exists>ps t. run_threads mock_interface [0, 1, 0, 1]
       [request_program ''/api'' (empty_request\<lparr>path := ''/api/A'', method := ''POST''\<rparr>),
        request_program ''/api'' (empty_request\<lparr>path := ''/api/A/1'', method := ''GET''\<rparr>)]
       mock_empty = (ps, t) \<and> mock_ok t"
proof -
  let ?qs = "[(''/api'', empty_request\<lparr>path := ''/api/A'', method := ''POST''\<rparr>),
    (''/api'', empty_request\<lparr>path := ''/api/A/1'', method := ''GET''\<rparr>)]"
  obtain ps t where "run_threads mock_interface [0, 1, 0, 1]
      (map (\<lambda>(p, q). request_program p q) ?qs) mock_empty = (ps, t)" by fastforce
  with no_delete_no_exception [OF mock_empty_view(2) _ this] show ?thesis by simp
qed

section \<open>With deletion no order explains the outcome\<close>

definition names_entity :: "string \<Rightarrow> http_request \<Rightarrow> string \<Rightarrow> entity \<Rightarrow> string \<Rightarrow> bool" where
  "names_entity p q m e i \<longleftrightarrow>
     method q = m \<and> parse_entity_and_id_from_path p (path q) = Some (e, i, True)"

text \<open>Two requests one after the other: their answers, and the data afterwards.\<close>

definition in_order ::
  "string \<Rightarrow> http_request \<Rightarrow> http_request \<Rightarrow> mock_filesystem \<Rightarrow>
     http_response outcome \<times> http_response outcome \<times> store_view" where
  "in_order p q q' s =
     (let (r, t) = crud_handle_request (mock_crud p) q s;
          (r', t) = crud_handle_request (mock_crud p) q' t
      in (r, r', mock_view t))"

definition entity_deleted :: http_response where
  "entity_deleted = reply 200 ''OK'' ''text/plain'' ''Entity deleted successfully''"

text \<open>The answer of a request when a DELETE has been served between its two calls.\<close>

definition overtaken :: "string \<Rightarrow> http_request \<Rightarrow> entity \<Rightarrow> string \<Rightarrow> http_response outcome" where
  "overtaken m q e i =
     (if m = ''GET'' then Inl (Runtime_error (''MockFilesystem: No such entity or ID: '' @ make_name e i))
      else if m = ''PUT'' then Inr (reply 200 ''OK'' ''application/json'' (body q))
      else Inr (reply 500 ''Internal Server Error'' ''text/plain'' ''Failed to delete entity''))"

lemma overtaken_run:
  assumes "names_entity p q m e i" "m \<in> {''GET'', ''PUT'', ''DELETE''}" "names_entity p q' ''DELETE'' e i"
    and "mock_view s (name e) i \<noteq> None"
  shows "\<exists>t. run_threads mock_interface [0, 1, 1, 0] [request_program p q, request_program p q'] s =
      ([Done (overtaken m q e i), Done (Inr entity_deleted)], t) \<and>
    mock_view t (name e) i = (if m = ''PUT'' then Some (body q) else None)"
proof -
  obtain s1 where there: "mock_entity_exists s e i" "mock_delete_entity e i s = (True, s1)"
    using assms(4) mock_delete_view(1) [of e i s]
    by (cases "mock_delete_entity e i s") (auto simp: mock_exists_view)
  have gone: "mock_view s1 (name e) i = None" using mock_delete_view(2) [of e i s] there(2) by simp
  obtain u where again: "mock_delete_entity e i s1 = (False, u)" "mock_view u (name e) i = None"
    using gone mock_delete_view(1,2) [of e i s1] by (cases "mock_delete_entity e i s1") auto
  obtain w where stores: "mock_write_entity e i (body q) s1 = (True, w)"
    "mock_view w (name e) i = Some (body q)"
    using mock_write_view(1,2) [of e i "body q" s1] by (cases "mock_write_entity e i (body q) s1") auto
  have del: "request_program p q' = delete_program e i"
    using assms(3) by (simp add: names_entity_def request_program_def)
  consider "m = ''GET''" | "m = ''PUT''" | "m = ''DELETE''" using assms(2) by auto
  then show ?thesis
  proof cases
    case 1
    then have "request_program p q = get_program e i"
      using assms(1) by (simp add: names_entity_def request_program_def)
    with 1 show ?thesis
      using there(1) gone
      by (simp add: del get_program_def delete_program_def there(2) mock_read_view overtaken_def entity_deleted_def)
  next
    case 2
    then have "request_program p q = put_program q e i"
      using assms(1) by (simp add: names_entity_def request_program_def)
    with 2 show ?thesis
      using there(1)
      by (simp add: del put_program_def delete_program_def there(2) stores overtaken_def entity_deleted_def)
  next
    case 3
    then have "request_program p q = delete_program e i"
      using assms(1) by (simp add: names_entity_def request_program_def)
    with 3 show ?thesis
      using there(1) gone
      by (simp add: del delete_program_def there(2) again overtaken_def entity_deleted_def)
  qed
qed

lemma call_of_entity:
  assumes "names_entity p q m e i" "m \<in> {''GET'', ''PUT'', ''DELETE''}"
  shows "crud_call_of p q =
    (if m = ''GET'' then Retrieve (name e) i
     else if m = ''PUT'' then Update (name e) i (body q) else Remove (name e) i)"
  using assms by (auto simp: names_entity_def crud_call_of_def)

lemma delete_serves:
  assumes "names_entity p q ''DELETE'' e i" "mock_ok s" "crud_handle_request (mock_crud p) q s = (r, t)"
  shows "mock_ok t" "mock_view t (name e) i = None"
proof -
  obtain x where x: "mock_ok t" "crud_contract (crud_call_of p q) (mock_view s) x (mock_view t)"
    using mock.crud_meets_contract [OF assms(2), of p q] assms(3) by auto
  then show "mock_ok t" by simp
  show "mock_view t (name e) i = None"
    using x(2) call_of_entity [OF assms(1)] by (cases "mock_view s (name e) i") auto
qed

lemma in_order_delete:
  assumes "names_entity p q m e i" "m \<in> {''GET'', ''PUT'', ''DELETE''}" "names_entity p q' ''DELETE'' e i"
    and "mock_ok s" "mock_view s (name e) i \<noteq> None"
  shows "in_order p q q' s = (r, r', v) \<Longrightarrow> (\<exists>x. r = Inr x \<and> status_code x = Some 200) \<and> v (name e) i = None"
    and "in_order p q' q s = (r', r, v) \<Longrightarrow> \<exists>x. r = Inr x \<and> status_code x = Some 404"
proof -
  obtain r1 t where first: "crud_handle_request (mock_crud p) q s = (Inr r1, t)" "mock_ok t"
    "crud_contract (crud_call_of p q) (mock_view s) r1 (mock_view t)"
    using mock.crud_meets_contract [OF assms(4)] by blast
  then have "status_code r1 = Some 200"
    using assms(5) call_of_entity [OF assms(1,2)] by (auto simp: answers_def split: if_splits option.splits)
  moreover obtain r2 u where "crud_handle_request (mock_crud p) q' t = (r2, u)" by fastforce
  moreover from delete_serves [OF assms(3) first(2) this] have "mock_view u (name e) i = None" by simp
  ultimately show "in_order p q q' s = (r, r', v) \<Longrightarrow>
      (\<exists>x. r = Inr x \<and> status_code x = Some 200) \<and> v (name e) i = None"
    using first(1) by (auto simp: in_order_def)
next
  obtain r1 t where first: "crud_handle_request (mock_crud p) q' s = (r1, t)" by fastforce
  note t = delete_serves [OF assms(3,4) first]
  obtain r2 u where "crud_handle_request (mock_crud p) q t = (Inr r2, u)"
    "crud_contract (crud_call_of p q) (mock_view t) r2 (mock_view u)"
    using mock.crud_meets_contract [OF t(1)] by blast
  moreover from this(2) have "status_code r2 = Some 404"
    using t(2) call_of_entity [OF assms(1,2)] by (auto simp: answers_def split: if_splits)
  ultimately show "in_order p q' q s = (r', r, v) \<Longrightarrow> \<exists>x. r = Inr x \<and> status_code x = Some 404"
    using first by (auto simp: in_order_def)
qed

text \<open>
  C18: a DELETE that overtakes. When a GET, PUT or DELETE of an entity has found that it exists and a DELETE
  of the same entity is served before its second call, the GET raises an exception that no one
  catches, the PUT is told 200 and the deleted entity is back, the other DELETE is told 500. The client
  of the overtaking DELETE is told that the entity is deleted. No order of the two requests gives these
  answers and these data: the API is not serialisable.
\<close>

theorem delete_not_serialisable:
  assumes "names_entity p q m e i" "m \<in> {''GET'', ''PUT'', ''DELETE''}" "names_entity p q' ''DELETE'' e i"
    and "mock_ok s" "mock_view s (name e) i \<noteq> None"
  shows "\<exists>t. run_threads mock_interface [0, 1, 1, 0] [request_program p q, request_program p q'] s =
      ([Done (overtaken m q e i), Done (Inr entity_deleted)], t) \<and>
    mock_view t (name e) i = (if m = ''PUT'' then Some (body q) else None) \<and>
    in_order p q q' s \<noteq> (overtaken m q e i, Inr entity_deleted, mock_view t) \<and>
    in_order p q' q s \<noteq> (Inr entity_deleted, overtaken m q e i, mock_view t)"
proof -
  obtain t where t: "run_threads mock_interface [0, 1, 1, 0] [request_program p q, request_program p q'] s =
      ([Done (overtaken m q e i), Done (Inr entity_deleted)], t)"
    "mock_view t (name e) i = (if m = ''PUT'' then Some (body q) else None)"
    using overtaken_run [OF assms(1-3,5)] by blast
  have "in_order p q q' s \<noteq> (overtaken m q e i, Inr entity_deleted, mock_view t)"
    using in_order_delete(1) [OF assms] t(2) by (fastforce simp: overtaken_def split: if_splits)
  moreover have "in_order p q' q s \<noteq> (Inr entity_deleted, overtaken m q e i, mock_view t)"
    using in_order_delete(2) [OF assms] by (fastforce simp: overtaken_def split: if_splits)
  ultimately show ?thesis using t by blast
qed

text \<open>The example: a GET and a DELETE of \<open>/api/Shoes/1\<close>.\<close>

definition shoes_store :: mock_filesystem where
  "shoes_store = snd (mock_write_entity \<lparr>name = ''Shoes''\<rparr> ''1'' ''x'' mock_empty)"

definition shoes_request :: "string \<Rightarrow> http_request" where
  "shoes_request m = empty_request\<lparr>method := m, path := ''/api/Shoes/1''\<rparr>"

lemma shoes_names: "names_entity ''/api'' (shoes_request m) m \<lparr>name = ''Shoes''\<rparr> ''1''"
proof -
  have "parse_entity_and_id_from_path ''/api'' ''/api/Shoes/1'' = Some (\<lparr>name = ''Shoes''\<rparr>, ''1'', True)"
    by code_simp
  then show ?thesis by (simp add: names_entity_def shoes_request_def)
qed

lemma shoes_store_facts: "mock_ok shoes_store" "mock_view shoes_store ''Shoes'' ''1'' = Some ''x''"
  by (simp_all add: shoes_store_def mock_write_view mock_empty_view(2))

theorem delete_not_serialisable_witness:
  "\<exists>t. run_threads mock_interface [0, 1, 1, 0]
       [request_program ''/api'' (shoes_request ''GET''), request_program ''/api'' (shoes_request ''DELETE'')]
       shoes_store =
     ([Done (Inl (Runtime_error ''MockFilesystem: No such entity or ID: Shoes/1'')),
       Done (Inr entity_deleted)], t)"
proof -
  have e: "mock_view shoes_store (name \<lparr>name = ''Shoes''\<rparr>) ''1'' \<noteq> None"
    by (simp add: shoes_store_facts)
  from delete_not_serialisable [OF shoes_names _ shoes_names shoes_store_facts(1) e, of "''GET''"]
  show ?thesis by (auto simp: overtaken_def make_name_def)
qed

end
