(* ===== verification/Crud_Posts.thy ===== *)
theory Crud_Posts
  imports Crud_Interleaving
begin

text \<open>
  Any number of POSTs for one entity type on one store (\<open>CrudHandler::handle_post\<close> of src/crud_handler.cc
  on several threads). \<open>next_entity_id\<close> and \<open>write_entity\<close> are two calls, so ids are chosen that others
  have been told. The books always balance: what is in the store is what some request was told.
\<close>

definition posts_to :: "entity \<Rightarrow> string \<times> http_request \<Rightarrow> bool" where
  "posts_to e = (\<lambda>(p, q). method q = ''POST'' \<and>
     (\<exists>i. parse_entity_and_id_from_path p (path q) = Some (e, i, False)))"

definition created_reply :: "string \<Rightarrow> http_response" where
  "created_reply i = reply 201 ''Created'' ''application/json'' (id_body i)"

definition storing :: "http_request \<Rightarrow> entity \<Rightarrow> string \<Rightarrow> crud_program" where
  "storing q e i =
     Call_write e i (body q) (\<lambda>ok.
       Done (Inr (if \<not> ok
                  then reply 500 ''Internal Server Error'' ''text/plain'' ''Failed to store entity''
                  else created_reply i)))"

lemma post_request_program: "posts_to e (p, q) \<Longrightarrow> request_program p q = post_program q e"
  by (auto simp: posts_to_def request_program_def)

lemma post_choose:
  "mock_next_entity_id s e = Inr i \<Longrightarrow> next_call mock_interface (post_program q e) s = (storing q e i, s)"
  unfolding post_program_def storing_def created_reply_def by simp

lemma post_full:
  assumes "mock_next_entity_id s e = Inl x"
  shows "next_call mock_interface (post_program q e) s =
    (Done (Inr (reply 500 ''Internal Server Error'' ''text/plain'' (''Failed to allocate ID: '' @ what x))), s)"
  using assms mock_next_exception [OF assms] by (simp add: post_program_def)

lemma post_store:
  "next_call mock_interface (storing q e i) s =
     (Done (Inr (created_reply i)), snd (mock_write_entity e i (body q) s))"
  using mock_write_view(1) [of e i "body q" s] by (simp add: storing_def case_prod_unfold)

lemma created_reply_inject [simp]: "created_reply i = created_reply j \<longleftrightarrow> i = j"
proof
  assume "created_reply i = created_reply j"
  then have "message_body (created_reply i) = message_body (created_reply j)" by simp
  then show "i = j" by (simp add: created_reply_def id_body_def)
qed simp

lemma full_not_created [simp]: "reply 500 rp ct b \<noteq> created_reply i"
proof
  assume "reply 500 rp ct b = created_reply i"
  then have "status_code (reply 500 rp ct b) = status_code (created_reply i)" by simp
  then show False by (simp add: created_reply_def)
qed

text \<open>The example: POSTs to \<open>/api/A\<close>.\<close>

definition post_to_a :: "string \<Rightarrow> http_request" where
  "post_to_a b = empty_request\<lparr>method := ''POST'', path := ''/api/A'', body := b\<rparr>"

lemma posts_to_a: "posts_to \<lparr>name = ''A''\<rparr> (''/api'', post_to_a b)"
proof -
  have "parse_entity_and_id_from_path ''/api'' ''/api/A'' = Some (\<lparr>name = ''A''\<rparr>, [], False)" by code_simp
  then show ?thesis by (simp add: posts_to_def post_to_a_def)
qed

section \<open>The books\<close>

text \<open>The ids that the requests with the bodies \<open>qs\<close> have been told.\<close>

definition told :: "crud_program list \<Rightarrow> string set" where
  "told ps = {i. Done (Inr (created_reply i)) \<in> set ps}"

definition post_state :: "store_view \<Rightarrow> string \<Rightarrow> entity \<Rightarrow> http_request \<Rightarrow> crud_program \<Rightarrow> bool" where
  "post_state v n e q p \<longleftrightarrow>
     p = post_program q e \<or> (\<exists>i. v n i = None \<and> p = storing q e i) \<or>
     (\<exists>i. v n i = None \<and> p = Done (Inr (created_reply i))) \<or> (\<exists>m. p = Done (Inr (reply 500
        ''Internal Server Error'' ''text/plain'' m)))"

definition books ::
  "store_view \<Rightarrow> entity \<Rightarrow> http_request list \<Rightarrow> crud_program list \<Rightarrow> store_view \<Rightarrow> bool" where
  "books v e qs ps u \<longleftrightarrow>
     (\<forall>m i. m \<noteq> name e \<or> v (name e) i \<noteq> None \<longrightarrow> u m i = v m i) \<and>
     (\<forall>i. v (name e) i = None \<longrightarrow>
        (u (name e) i \<noteq> None \<longleftrightarrow> i \<in> told ps) \<and>
        (\<forall>d. u (name e) i = Some d \<longrightarrow>
           (\<exists>k < length qs. ps ! k = Done (Inr (created_reply i)) \<and> body (qs ! k) = d)))"

lemma booksD:
  assumes "books v e qs ps u"
  shows "m \<noteq> name e \<or> v (name e) i \<noteq> None \<Longrightarrow> u m i = v m i"
    "v (name e) i = None \<Longrightarrow> u (name e) i \<noteq> None \<longleftrightarrow> i \<in> told ps"
    "v (name e) i = None \<Longrightarrow> u (name e) i = Some d \<Longrightarrow>
       \<exists>k < length qs. ps ! k = Done (Inr (created_reply i)) \<and> body (qs ! k) = d"
  using assms unfolding books_def by simp_all

lemma told_nth: "i \<in> told ps \<longleftrightarrow> (\<exists>k < length ps. ps ! k = Done (Inr (created_reply i)))"
  by (auto simp: told_def in_set_conv_nth)

lemma books_other:
  assumes "books v e qs ps u" "length ps = length qs" "k < length ps"
    and "\<And>i. ps ! k \<noteq> Done (Inr (created_reply i))" "\<And>i. p \<noteq> Done (Inr (created_reply i))"
  shows "books v e qs (ps[k := p]) u"
proof -
  have same: "ps[k := p] ! j = Done (Inr (created_reply i)) \<longleftrightarrow> ps ! j = Done (Inr (created_reply i))" for i j
    using assms(3-5) by (cases "j = k") simp_all
  then have "told (ps[k := p]) = told ps" by (auto simp: told_nth)
  with assms(1) same show ?thesis by (simp add: books_def)
qed

lemma books_created:
  assumes "books v e qs ps u" "length ps = length qs" "k < length ps" "v (name e) i = None"
    and "\<And>i. ps ! k \<noteq> Done (Inr (created_reply i))"
  shows "books v e qs (ps[k := Done (Inr (created_reply i))]) (view_put (name e) i (body (qs ! k)) u)"
    (is "books v e qs ?ps ?u")
proof -
  have old: "ps ! j = Done (Inr (created_reply x)) \<Longrightarrow> ?ps ! j = Done (Inr (created_reply x))" for j x
    using assms(5) by (cases "j = k") simp_all
  have "x \<in> told ?ps \<longleftrightarrow> x = i \<or> x \<in> told ps" for x
  proof
    assume "x \<in> told ?ps"
    then obtain j where "j < length ps" "?ps ! j = Done (Inr (created_reply x))" by (auto simp: told_nth)
    then show "x = i \<or> x \<in> told ps" by (cases "j = k") (auto simp: told_nth)
  next
    assume "x = i \<or> x \<in> told ps"
    then show "x \<in> told ?ps"
      using assms(3) old by (elim disjE) (auto simp: told_nth intro: exI [of _ k])
  qed
  then have "told ?ps = insert i (told ps)" by blast
  moreover have "\<exists>j < length qs. ?ps ! j = Done (Inr (created_reply x)) \<and> body (qs ! j) = d"
    if new: "v (name e) x = None" "?u (name e) x = Some d" for x d
  proof (cases "x = i")
    case True
    then show ?thesis using new(2) assms(2,3) by (intro exI [of _ k]) simp
  next
    case False
    with new(2) have "u (name e) x = Some d" by simp
    then obtain j where "j < length qs" "ps ! j = Done (Inr (created_reply x))" "body (qs ! j) = d"
      using booksD(3) [OF assms(1) new(1)] by blast
    with old show ?thesis by blast
  qed
  moreover have "?u m x = v m x" if "m \<noteq> name e \<or> v (name e) x \<noteq> None" for m x
  proof -
    have "u m x = v m x" using booksD(1) [OF assms(1) that] .
    moreover have "(name e, i) \<noteq> (m, x)" using that assms(4) by auto
    ultimately show ?thesis by auto
  qed
  moreover have "?u (name e) x \<noteq> None \<longleftrightarrow> x = i \<or> x \<in> told ps" if "v (name e) x = None" for x
  proof -
    have "u (name e) x \<noteq> None \<longleftrightarrow> x \<in> told ps" using booksD(2) [OF assms(1) that] .
    then show ?thesis by auto
  qed
  ultimately show ?thesis by (simp only: books_def insert_iff) blast
qed

lemma books_step:
  assumes "length ps = length qs" "\<forall>k < length qs. post_state v (name e) e (qs ! k) (ps ! k)"
    and "books v e qs ps (mock_view s)" "k < length ps"
    and "next_call mock_interface (ps ! k) s = (p, t)"
  shows "post_state v (name e) e (qs ! k) p \<and> books v e qs (ps[k := p]) (mock_view t)"
proof -
  consider (choose) "ps ! k = post_program (qs ! k) e"
    | (store) i where "v (name e) i = None" "ps ! k = storing (qs ! k) e i"
    | (answered) r where "ps ! k = Done r"
    using assms(1,2,4) unfolding post_state_def by metis
  then show ?thesis
  proof cases
    case choose
    then have open_k: "ps ! k \<noteq> Done r" for r by (simp add: post_program_def)
    show ?thesis
    proof (cases "mock_next_entity_id s e")
      case (Inl x)
      with choose assms(5) have "p = Done (Inr (reply 500 ''Internal Server Error'' ''text/plain''
          (''Failed to allocate ID: '' @ what x)))" "t = s"
        by (simp_all add: post_full)
      then show ?thesis
        using books_other [OF assms(3,1,4) open_k, of p] by (auto simp: post_state_def)
    next
      case (Inr i)
      with choose assms(5) have p: "p = storing (qs ! k) e i" "t = s" by (simp_all add: post_choose)
      have "v (name e) i = None"
        using mock_next_fresh [OF Inr] assms(3) unfolding books_def by metis
      then show ?thesis
        using p books_other [OF assms(3,1,4) open_k, of p] by (auto simp: post_state_def storing_def)
    qed
  next
    case (store i)
    with assms(5) have p: "p = Done (Inr (created_reply i))"
      "mock_view t = view_put (name e) i (body (qs ! k)) (mock_view s)"
      by (auto simp: post_store mock_write_view)
    have "ps ! k \<noteq> Done r" for r using store(2) by (simp add: storing_def)
    with p store(1) books_created [OF assms(3,1,4) store(1)] show ?thesis by (simp add: post_state_def)
  next
    case (answered r)
    with assms(5) have "p = ps ! k" "t = s" by simp_all
    then show ?thesis using assms(1-4) by simp
  qed
qed

text \<open>
  C14: what concurrent POSTs store is what they were told. Any number of POSTs for one type, in any
  interleaving of their calls: entities that were there stay as they were; the new entities are exactly
  the ids that some request was answered with, each holding the body of a request that was answered
  with that id. So when no two requests are told the same id nothing is lost, and when two are, a body
  is.
\<close>

theorem posts_balance:
  assumes "\<forall>q \<in> set qs. posts_to e (p, q)"
    and "run_threads mock_interface schedule (map (request_program p) qs) s = (ps, t)"
  shows "books (mock_view s) e qs ps (mock_view t) \<and>
    (\<forall>k < length qs. \<forall>i. ps ! k = Done (Inr (created_reply i)) \<longrightarrow> mock_view s (name e) i = None) \<and>
    ((\<forall>j k i. j < length qs \<and> k < length qs \<and> ps ! j = Done (Inr (created_reply i)) \<and>
        ps ! k = Done (Inr (created_reply i)) \<longrightarrow> j = k) \<longrightarrow>
     (\<forall>k < length qs. \<forall>i. ps ! k = Done (Inr (created_reply i)) \<longrightarrow>
        mock_view t (name e) i = Some (body (qs ! k))))"
proof -
  let ?v = "mock_view s" and ?n = "name e"
  let ?I = "\<lambda>ps u. length ps = length qs \<and> (\<forall>k < length qs. post_state ?v ?n e (qs ! k) (ps ! k)) \<and>
    books ?v e qs ps (mock_view u)"
  have start: "map (request_program p) qs = map (\<lambda>q. post_program q e) qs"
    using assms(1) post_request_program by simp
  have "?I ps t"
  proof (rule run_threads_invariant [where I = ?I, OF assms(2)])
    show "?I (map (request_program p) qs) s"
      by (simp add: start post_state_def books_def told_def) (auto simp: post_program_def)
  next
    fix k ps u
    assume I: "?I ps u" and k: "k < length ps"
    obtain q u' where "next_call mock_interface (ps ! k) u = (q, u')" by fastforce
    moreover from books_step [OF _ _ _ k this, of qs ?v e] I
    have "post_state ?v ?n e (qs ! k) q" "books ?v e qs (ps[k := q]) (mock_view u')" by blast+
    ultimately show "?I (ps[k := fst (next_call mock_interface (ps ! k) u)]) (snd (next_call mock_interface (ps ! k) u))"
      using I k by (simp add: nth_list_update)
  qed
  then have len: "length ps = length qs" and b: "books ?v e qs ps (mock_view t)"
    and states: "\<forall>k < length qs. post_state ?v ?n e (qs ! k) (ps ! k)" by blast+
  have fresh: "?v ?n i = None" if "k < length qs" "ps ! k = Done (Inr (created_reply i))" for k i
    using states that by (force simp: post_state_def post_program_def storing_def)
  have "mock_view t ?n i = Some (body (qs ! k))"
    if once: "\<forall>j k i. j < length qs \<and> k < length qs \<and> ps ! j = Done (Inr (created_reply i)) \<and>
        ps ! k = Done (Inr (created_reply i)) \<longrightarrow> j = k"
      and k: "k < length qs" "ps ! k = Done (Inr (created_reply i))" for k i
  proof -
    have "i \<in> told ps" using k len by (auto simp: told_nth)
    then obtain d where "mock_view t ?n i = Some d"
      using booksD(2) [OF b fresh [OF k]] by blast
    moreover obtain j where "j < length qs" "ps ! j = Done (Inr (created_reply i))" "body (qs ! j) = d"
      using booksD(3) [OF b fresh [OF k] calculation] by blast
    ultimately show ?thesis using once k by blast
  qed
  with b fresh show ?thesis by blast
qed

theorem posts_balance_witness:
  "\<exists>ps t. run_threads mock_interface [0, 1, 1, 0] (map (request_program ''/api'') [post_to_a ''a'', post_to_a ''b''])
       mock_empty = (ps, t) \<and>
     books (mock_view mock_empty) \<lparr>name = ''A''\<rparr> [post_to_a ''a'', post_to_a ''b''] ps (mock_view t)"
proof -
  let ?qs = "[post_to_a ''a'', post_to_a ''b'']"
  obtain ps t where run: "run_threads mock_interface [0, 1, 1, 0] (map (request_program ''/api'') ?qs)
      mock_empty = (ps, t)" by fastforce
  have "\<forall>q \<in> set ?qs. posts_to \<lparr>name = ''A''\<rparr> (''/api'', q)" by (simp add: posts_to_a)
  from posts_balance [OF this run] run show ?thesis by blast
qed

section \<open>All of them are told the same id\<close>

lemma run_threads_append:
  "run_threads fs (ks @ ks') ps s = case_prod (run_threads fs ks') (run_threads fs ks ps s)"
  by (induction ks arbitrary: ps s) (simp_all add: Let_def split: prod.split)

text \<open>One call of each of the first \<open>m\<close> threads, when the call of thread \<open>k\<close> makes \<open>f\<close> of \<open>g\<close>.\<close>

lemma run_round:
  assumes "\<And>q s. P s \<Longrightarrow> q \<in> set qs \<Longrightarrow> next_call fs (f q) s = (g q, h q s) \<and> P (h q s)" "P s"
  shows "m \<le> length qs \<Longrightarrow> run_threads fs [0..<m] (map f qs) s =
      (map g (take m qs) @ map f (drop m qs), fold h (take m qs) s) \<and> P (fold h (take m qs) s)"
proof (induction m)
  case (Suc m)
  then have m: "m < length qs" and IH: "run_threads fs [0..<m] (map f qs) s =
      (map g (take m qs) @ map f (drop m qs), fold h (take m qs) s)" "P (fold h (take m qs) s)" by simp_all
  let ?t = "fold h (take m qs) s"
  have step: "next_call fs (f (qs ! m)) ?t = (g (qs ! m), h (qs ! m) ?t)" "P (h (qs ! m) ?t)"
    using assms(1) [OF IH(2), of "qs ! m"] m by simp_all
  have "drop m qs = qs ! m # drop (Suc m) qs" "take (Suc m) qs = take m qs @ [qs ! m]"
    using m by (simp_all add: Cons_nth_drop_Suc take_Suc_conv_app_nth)
  moreover from m have "0 < length qs - m" "min (length qs) m = m" by simp_all
  ultimately show ?case
    using step m by (simp add: run_threads_append IH(1) nth_append list_update_append del: length_drop)
qed (use assms(2) in simp)

definition stored_in_turn :: "entity \<Rightarrow> string \<Rightarrow> http_request list \<Rightarrow> mock_filesystem \<Rightarrow> mock_filesystem" where
  "stored_in_turn e i qs s = fold (\<lambda>q s. snd (mock_write_entity e i (body q) s)) qs s"

lemma stored_in_turn_view:
  "qs \<noteq> [] \<Longrightarrow> mock_view (stored_in_turn e i qs s) = view_put (name e) i (body (last qs)) (mock_view s)"
proof (induction qs rule: rev_induct)
  case (snoc q qs)
  then show ?case
    by (cases "qs = []") (auto simp: stored_in_turn_def mock_write_view fun_eq_iff)
qed simp



section \<open>Two requests, interleaved and in sequence\<close>

text \<open>
  Two POSTs that interleave lose an entity. If both ask for an id before either writes, both clients are
  told 201 with the same id, and the store holds only the body that was written last. When one POST
  runs after the other, the ids differ and both bodies are stored.
\<close>

theorem concurrent_posts_collide:
  assumes "mock_ok s" "length (mock_list_entity_ids s e) + 1 < nat INT_MAX"
    and "posts_to e (p, q1)" "posts_to e (p, q2)"
  shows "(\<exists>i t. run_threads mock_interface [0, 1, 0, 1] [request_program p q1, request_program p q2] s =
        ([Done (Inr (created_reply i)), Done (Inr (created_reply i))], t) \<and>
      mock_view t = view_put (name e) i (body q2) (mock_view s)) \<and>
    (\<exists>i j t. run_threads mock_interface [0, 0, 1, 1] [request_program p q1, request_program p q2] s =
        ([Done (Inr (created_reply i)), Done (Inr (created_reply j))], t) \<and> i \<noteq> j \<and>
      mock_view t = view_put (name e) j (body q2) (view_put (name e) i (body q1) (mock_view s)))"
proof
  note programs = post_request_program [OF assms(3)] post_request_program [OF assms(4)]
  obtain i where i: "mock_next_entity_id s e = Inr i" "mock_view s (name e) i = None"
    using mock_next_room [of s e] assms(2) by auto
  let ?s1 = "snd (mock_write_entity e i (body q1) s)"
  let ?t = "snd (mock_write_entity e i (body q2) ?s1)"
  have "mock_view ?t = view_put (name e) i (body q2) (mock_view s)"
    by (auto simp: mock_write_view fun_eq_iff)
  then show "\<exists>i t. run_threads mock_interface [0, 1, 0, 1] [request_program p q1, request_program p q2] s =
        ([Done (Inr (created_reply i)), Done (Inr (created_reply i))], t) \<and>
      mock_view t = view_put (name e) i (body q2) (mock_view s)"
    by (intro exI [of _ i] exI [of _ ?t]) (simp add: programs post_choose [OF i(1)] post_store)
  have ok1: "mock_ok ?s1" by (rule mock_write_view(3) [OF assms(1)])
  have "set (mock_list_entity_ids ?s1 e) = insert i (set (mock_list_entity_ids s e))"
    by (auto simp: mock_list_view mock_write_view dom_def)
  then have "length (mock_list_entity_ids ?s1 e) \<le> length (mock_list_entity_ids s e) + 1"
    using mock_list_distinct [OF ok1, of e] mock_list_distinct [OF assms(1), of e]
      card_insert_le_m1 [of "Suc (length (mock_list_entity_ids s e))" "set (mock_list_entity_ids s e)" i]
    by (simp add: distinct_card [symmetric])
  then obtain j where j: "mock_next_entity_id ?s1 e = Inr j" "mock_view ?s1 (name e) j = None"
    using mock_next_room [of ?s1 e] assms(2) by auto
  have "i \<noteq> j" using j(2) by (auto simp: mock_write_view)
  then show "\<exists>i j t. run_threads mock_interface [0, 0, 1, 1] [request_program p q1, request_program p q2] s =
        ([Done (Inr (created_reply i)), Done (Inr (created_reply j))], t) \<and> i \<noteq> j \<and>
      mock_view t = view_put (name e) j (body q2) (view_put (name e) i (body q1) (mock_view s))"
    by (intro exI [of _ i] exI [of _ j] exI [of _ "snd (mock_write_entity e j (body q2) ?s1)"])
      (simp add: programs post_choose [OF i(1)] post_choose [OF j(1)] post_store mock_write_view)
qed

end
