(* ===== verification/Request_Handler.thy ===== *)
theory Request_Handler
  imports Http_Request Http_Response Mock_Filesystem
begin

text \<open>
  The interface of the handlers (include/request_handler.h), the world they act on, and the four
  handlers without state of their own: echo, health, not found and sleep (src/echo_handler.cc,
  src/health_handler.cc, src/not_found_handler.cc, src/sleep_handler.cc). The file system of the
  operating system is outside the repository: it is a record of the functions of
  \<open>std::filesystem\<close> that the file handler calls, and \<open>os_ok\<close> states that what they raise is
  \<open>filesystem_error\<close>.
\<close>

section \<open>The world\<close>

record os_files =
  os_exists :: "string \<Rightarrow> bool outcome"
  os_is_directory :: "string \<Rightarrow> bool outcome"
  os_is_regular_file :: "string \<Rightarrow> bool outcome"
  os_read :: "string \<Rightarrow> string option"

definition os_ok :: "os_files \<Rightarrow> bool" where
  "os_ok os \<longleftrightarrow>
     (\<forall>p e. os_exists os p = Inl e \<or> os_is_directory os p = Inl e \<or> os_is_regular_file os p = Inl e
        \<longrightarrow> (\<exists>m. e = Filesystem_error m))"

record world =
  store :: mock_filesystem
  files :: os_files
  slept :: "int list"

definition world_ok :: "world \<Rightarrow> bool" where
  "world_ok w \<longleftrightarrow> mock_ok (store w) \<and> os_ok (files w)"

section \<open>The interface\<close>

text \<open>
  What the session relies on. A handler keeps the world well formed; what it returns can be
  serialised and is framed correctly; what it raises is an exception and never undefined behaviour.
\<close>

locale request_handler =
  fixes handle_request :: "http_request \<Rightarrow> world \<Rightarrow> http_response outcome \<times> world"
  assumes keeps_world: "world_ok w \<Longrightarrow> world_ok (snd (handle_request q w))"
    and sends: "world_ok w \<Longrightarrow> fst (handle_request q w) = Inr r \<Longrightarrow> sendable r"
    and raises: "world_ok w \<Longrightarrow> fst (handle_request q w) = Inl e \<Longrightarrow> is_exception e"
begin

lemma serialisable:
  assumes "world_ok w" "fst (handle_request q w) = Inr r"
  shows "succeeds (convert_to_string r)"
  using sends [OF assms] by (auto simp: sendable_def convert_to_string_def get_status_code_def)

end

text \<open>A handler that never raises.\<close>

locale total_request_handler = request_handler +
  assumes returns: "world_ok w \<Longrightarrow> succeeds (fst (handle_request q w))"
begin

lemma answer:
  assumes "world_ok w"
  obtains r w' where "handle_request q w = (Inr r, w')" "sendable r" "world_ok w'"
  using returns [OF assms, of q] sends [OF assms, of q] keeps_world [OF assms, of q]
  by (cases "handle_request q w") (auto simp: succeeds_iff)

end

section \<open>The handlers without state\<close>

definition echo_handler_name :: string where
  "echo_handler_name = ''EchoHandler''"

definition health_handler_name :: string where
  "health_handler_name = ''HealthHandler''"

definition not_found_handler_name :: string where
  "not_found_handler_name = ''NotFoundHandler''"

definition sleep_handler_name :: string where
  "sleep_handler_name = ''SleepHandler''"

definition echo_handle_request :: "http_request \<Rightarrow> world \<Rightarrow> http_response outcome \<times> world" where
  "echo_handle_request request w = (Inr (reply 200 ''OK'' ''text/plain'' (raw_request request)), w)"

definition health_handle_request :: "http_request \<Rightarrow> world \<Rightarrow> http_response outcome \<times> world" where
  "health_handle_request request w = (Inr (reply 200 ''OK'' ''text/plain'' ''OK''), w)"

definition not_found_handle_request :: "http_request \<Rightarrow> world \<Rightarrow> http_response outcome \<times> world" where
  "not_found_handle_request request w =
     (Inr (reply 404 ''Not Found'' ''text/html'' ''<h1>404 Not Found</h1>''), w)"

text \<open>\<open>sleep_for\<close> blocks the calling thread; the world records for how many seconds.\<close>

definition sleep_handle_request ::
  "int \<Rightarrow> http_request \<Rightarrow> world \<Rightarrow> http_response outcome \<times> world" where
  "sleep_handle_request sleep_seconds request w =
     (Inr (reply 200 ''OK'' ''text/plain''
             (''Slept for '' @ to_string_int sleep_seconds @ '' seconds'')),
      w\<lparr>slept := slept w @ [sleep_seconds]\<rparr>)"

interpretation echo: total_request_handler echo_handle_request
  by unfold_locales (auto simp: echo_handle_request_def)

interpretation health: total_request_handler health_handle_request
  by unfold_locales (auto simp: health_handle_request_def)

interpretation not_found: total_request_handler not_found_handle_request
  by unfold_locales (auto simp: not_found_handle_request_def)

interpretation sleep: total_request_handler "sleep_handle_request n" for n
  by unfold_locales (auto simp: sleep_handle_request_def world_ok_def)

text \<open>
  The echo handler returns the bytes of the request unchanged: a client that reads the response
  off the connection by its \<open>Content-Length\<close> gets back, byte for byte, the request it sent, and the
  world is as before.
\<close>

theorem echo_returns_request:
  assumes "length raw < 2 ^ 64"
  shows "\<exists>r s. echo_handle_request (parse raw) w = (Inr r, w) \<and> convert_to_string r = Inr s \<and>
    (\<forall>rest. \<exists>head hs. client_receive (s @ rest) = Some (head, hs, raw, rest))"
proof -
  let ?r = "reply 200 ''OK'' ''text/plain'' raw"
  have raw: "raw_request (parse raw) = raw"
    by (cases "read_request_line raw")
      (auto simp: parse_def empty_request_def Let_def case_prod_unfold)
  have clean: "clean_response ?r" by simp
  have "\<exists>s. convert_to_string ?r = Inr s \<and>
      (\<forall>rest. client_receive (s @ rest) = Some (status_line ?r 200, headers_map ?r, raw, rest))"
    using clean_reply_framing [OF _ _ clean] assms by simp
  then show ?thesis
    by (auto simp: echo_handle_request_def raw)
qed

theorem echo_returns_request_witness:
  "\<forall>w. \<exists>r s. echo_handle_request (parse ''GET / HTTP/1.1'') w = (Inr r, w) \<and> convert_to_string r = Inr s \<and>
    (\<forall>rest. \<exists>head hs. client_receive (s @ rest) = Some (head, hs, ''GET / HTTP/1.1'', rest))"
  by (rule allI, rule echo_returns_request) simp

end
