(* ===== verification/File_Handler.thy ===== *)
theory File_Handler
  imports Request_Handler
begin

text \<open>
  \<open>FileHandler\<close> (src/file_handler.cc, include/file_handler.h): the construction with its checks of
  the root, the extension and MIME tables, the sanitising of paths, and the request handler. The
  file system is the \<open>os_files\<close> of the world, taken to be the same throughout one request. An
  \<open>unordered_set\<close> of extensions is a set: the code only asks for membership.
\<close>

section \<open>\<open>std::filesystem::path::extension\<close>\<close>

definition path_filename :: "string \<Rightarrow> string" where
  "path_filename p = rev (takeWhile (\<lambda>c. c \<noteq> CHR ''/'') (rev p))"

definition path_extension :: "string \<Rightarrow> string" where
  "path_extension p =
     (let f = path_filename p; ext = rev (takeWhile (\<lambda>c. c \<noteq> CHR ''.'') (rev f))
      in if f = ''.'' \<or> f = ''..'' \<or> CHR ''.'' \<notin> set f \<or> length f = length ext + 1 then []
         else CHR ''.'' # ext)"

section \<open>State and tables\<close>

record file_handler =
  root :: string
  route_prefix :: string
  supported_extensions :: "string set"

definition DEFAULT_EXTENSIONS :: "string set" where
  "DEFAULT_EXTENSIONS =
     set [''.html'', ''.htm'', ''.css'', ''.js'', ''.json'', ''.jpg'', ''.jpeg'', ''.png'', ''.gif'',
          ''.svg'', ''.txt'', ''.xml'', ''.pdf'', ''.ico'', ''.zip'']"

definition mime_types :: "(string \<times> string) list" where
  "mime_types =
     [(''.html'', ''text/html''), (''.htm'', ''text/html''), (''.css'', ''text/css''),
      (''.js'', ''application/javascript''), (''.json'', ''application/json''),
      (''.jpg'', ''image/jpeg''), (''.jpeg'', ''image/jpeg''), (''.png'', ''image/png''),
      (''.gif'', ''image/gif''), (''.svg'', ''image/svg+xml''), (''.txt'', ''text/plain''),
      (''.xml'', ''application/xml''), (''.pdf'', ''application/pdf''),
      (''.ico'', ''image/x-icon''), (''.zip'', ''application/zip'')]"

section \<open>Construction\<close>

definition slash_root :: "string \<Rightarrow> string" where
  "slash_root r = (if r \<noteq> [] \<and> last r \<noteq> CHR ''/'' then r @ ''/'' else r)"

definition make_file_handler ::
  "os_files \<Rightarrow> string \<Rightarrow> string \<Rightarrow> string set \<Rightarrow> file_handler outcome" where
  "make_file_handler os r rp extensions =
     andThen (os_exists os (slash_root r)) (\<lambda>there.
       if \<not> there
       then Inl (Invalid_argument (''Root path does not exist: '' @ slash_root r))
       else
         andThen (os_is_directory os (slash_root r)) (\<lambda>dir.
           if \<not> dir
           then Inl (Invalid_argument (''Root path is not a directory: '' @ slash_root r))
           else Inr \<lparr>root = slash_root r, route_prefix = rp,
                     supported_extensions = extensions\<rparr>))"

definition make_default_file_handler :: "os_files \<Rightarrow> string \<Rightarrow> string \<Rightarrow> file_handler outcome" where
  "make_default_file_handler os r rp =
     make_file_handler os r rp DEFAULT_EXTENSIONS"

section \<open>Operations\<close>

definition get_mime_type :: "string \<Rightarrow> string" where
  "get_mime_type file_path =
     (case map_of mime_types (to_lower (path_extension file_path)) of
        Some t \<Rightarrow> t
      | None \<Rightarrow> ''application/octet-stream'')"

definition is_supported_file_type :: "file_handler \<Rightarrow> string \<Rightarrow> bool" where
  "is_supported_file_type h file_path \<longleftrightarrow>
     to_lower (path_extension file_path) \<in> supported_extensions h"

definition path_parts :: "string \<Rightarrow> string list" where
  "path_parts p =
     filter (\<lambda>part. part \<noteq> ''..'' \<and> part \<noteq> ''.'' \<and> part \<noteq> []) (getlines (CHR ''/'') p)"

fun join_parts :: "string list \<Rightarrow> string" where
  "join_parts [] = []"
| "join_parts [part] = part"
| "join_parts (part # part' # parts) = part @ ''/'' @ join_parts (part' # parts)"

definition sanitize_path :: "string \<Rightarrow> string" where
  "sanitize_path p = join_parts (path_parts (dropWhile (\<lambda>c. c = CHR ''/'') p))"

text \<open>The target of the request below the route; empty when the route does not match.\<close>

definition relative_path :: "file_handler \<Rightarrow> http_request \<Rightarrow> string" where
  "relative_path h request =
     (let p = (case str_find ''?'' (path request) of
                 None \<Rightarrow> path request
               | Some query \<Rightarrow> take query (path request));
          r = (if route_prefix h \<noteq> [] \<and> prefix (route_prefix h) p
               then (let r = drop (length (route_prefix h)) p in if r = [] then ''/'' else r)
               else [])
      in sanitize_path r)"

definition file_handle_request ::
  "file_handler \<Rightarrow> http_request \<Rightarrow> world \<Rightarrow> http_response outcome \<times> world" where
  "file_handle_request h request w =
     (let full_path = root h @ relative_path h request;
          not_found = reply 404 ''Not Found'' ''text/html'' ''<h1>404 Not Found</h1>''
      in (andThen (os_exists (files w) full_path) (\<lambda>there.
            if \<not> there then Inr not_found
            else andThen (os_is_regular_file (files w) full_path) (\<lambda>regular.
              if \<not> regular then Inr not_found
              else if \<not> is_supported_file_type h full_path
              then Inr (reply 415 ''Unsupported Media Type'' ''text/plain''
                          ''415 - Unsupported file type'')
              else (case os_read (files w) full_path of
                      None \<Rightarrow> Inr (reply 500 ''Internal Server Error'' ''text/plain''
                                    ''500 - Could not read file'')
                    | Some bytes \<Rightarrow> Inr (reply 200 ''OK'' (get_mime_type full_path) bytes)))),
          w))"

definition file_handler_name :: string where
  "file_handler_name = ''FileHandler''"

lemma clean_mime_type: "clean (get_mime_type p)"
proof -
  have "\<forall>t \<in> set (map snd mime_types). clean t" by code_simp
  then show ?thesis
    by (auto simp: get_mime_type_def split: option.split dest!: map_of_SomeD)
qed

interpretation static_files: request_handler "file_handle_request h" for h
proof unfold_locales
  fix w q r e
  assume w: "world_ok w"
  then show "world_ok (snd (file_handle_request h q w))"
    by (simp add: file_handle_request_def Let_def)
  show "fst (file_handle_request h q w) = Inr r \<Longrightarrow> sendable r"
    by (auto simp: file_handle_request_def Let_def andThen_eq_Inr clean_mime_type
        split: if_splits option.splits)
  have "os_ok (files w)" using w by (simp add: world_ok_def)
  then show "fst (file_handle_request h q w) = Inl e \<Longrightarrow> is_exception e"
    unfolding os_ok_def
    by (auto simp: file_handle_request_def Let_def andThen_eq_Inl split: if_splits option.splits,
        (metis is_exception.simps)+)
qed

section \<open>Paths stay below the root\<close>

text \<open>Resolution of a path by name: \<open>..\<close> drops the last component, empty and \<open>.\<close> are nothing.\<close>

fun resolve_parts :: "string list \<Rightarrow> string list \<Rightarrow> string list" where
  "resolve_parts stack [] = rev stack"
| "resolve_parts stack (c # cs) =
     (if c = [] \<or> c = ''.'' then resolve_parts stack cs
      else if c = ''..'' then resolve_parts (tl stack) cs
      else resolve_parts (c # stack) cs)"

definition resolve :: "string \<Rightarrow> string list" where
  "resolve p = resolve_parts [] (getlines (CHR ''/'') p)"

definition plain_part :: "string \<Rightarrow> bool" where
  "plain_part c \<longleftrightarrow> c \<noteq> [] \<and> c \<noteq> ''.'' \<and> c \<noteq> ''..'' \<and> CHR ''/'' \<notin> set c"

lemma resolve_parts_append:
  "resolve_parts stack (xs @ ys) = resolve_parts (rev (resolve_parts stack xs)) ys"
  by (induction stack xs rule: resolve_parts.induct) simp_all

lemma resolve_plain_parts: "list_all plain_part xs \<Longrightarrow> resolve_parts stack xs = rev stack @ xs"
  by (induction xs arbitrary: stack) (simp_all add: plain_part_def)

lemma getlines_append_delim:
  "getlines d (a @ d # b) = getlines d (a @ [d]) @ getlines d b"
proof (induction "length a" arbitrary: a rule: less_induct)
  case less
  show ?case
  proof (cases "d \<in> set a")
    case True
    then obtain l r where a: "a = l @ d # r" "d \<notin> set l"
      using split_at_first by fast
    with less [of r] show ?thesis by simp
  qed (simp add: getlines_line [of d a b] getlines_line [of d a "[]"])
qed

lemma path_parts_plain: "list_all plain_part (path_parts p)"
  by (auto simp: path_parts_def list_all_iff plain_part_def dest: getlines_no_delim)

lemma getlines_join_parts: "list_all plain_part xs \<Longrightarrow> getlines (CHR ''/'') (join_parts xs) = xs"
  by (induction xs rule: join_parts.induct) (simp_all add: plain_part_def getlines_last)

lemma path_parts_join: "list_all plain_part xs \<Longrightarrow> path_parts (join_parts xs) = xs"
  by (auto simp: path_parts_def getlines_join_parts filter_id_conv list_all_iff plain_part_def)

lemma getlines_delim_Cons: "getlines d (d # s) = [] # getlines d s"
  using getlines_line [of d "[]" s] by simp

lemma path_parts_drop_slashes: "path_parts (dropWhile (\<lambda>c. c = CHR ''/'') p) = path_parts p"
  by (induction p) (simp_all add: path_parts_def getlines_delim_Cons)

lemma sanitize_path_parts: "sanitize_path p = join_parts (path_parts p)"
  by (simp add: sanitize_path_def path_parts_drop_slashes)

lemma slash_root_cases: "slash_root r = [] \<or> (\<exists>a. slash_root r = a @ [CHR ''/''])"
  by (cases r rule: rev_cases) (auto simp: slash_root_def)

lemma resolve_below:
  assumes "list_all plain_part parts"
  shows "resolve (slash_root r @ join_parts parts) = resolve (slash_root r) @ parts"
proof (cases "slash_root r = []")
  case True
  then show ?thesis
    using getlines_join_parts [OF assms] resolve_plain_parts [OF assms] by (simp add: resolve_def)
next
  case False
  then obtain a where a: "slash_root r = a @ [CHR ''/'']" using slash_root_cases by blast
  have "getlines (CHR ''/'') (slash_root r @ join_parts parts) =
      getlines (CHR ''/'') (slash_root r) @ parts"
    using getlines_append_delim [of "CHR ''/''" a "join_parts parts"] getlines_join_parts [OF assms] by (simp add: a)
  then show ?thesis
    using resolve_plain_parts [OF assms] by (simp add: resolve_def resolve_parts_append)
qed

text \<open>
  C24: no path escapes the root. What \<open>sanitize_path\<close> returns consists of plain components, none of
  them empty, \<open>.\<close> or \<open>..\<close>; appended to the root it resolves to a path below it, whatever the request
  asked for; and sanitising twice changes nothing.
\<close>

theorem sanitize_path_below_root:
  "\<exists>parts. sanitize_path p = join_parts parts \<and> list_all plain_part parts \<and>
     resolve (slash_root r @ sanitize_path p) = resolve (slash_root r) @ parts \<and>
     sanitize_path (sanitize_path p) = sanitize_path p"
  using resolve_below [OF path_parts_plain, of r p] path_parts_join [OF path_parts_plain, of p]
    path_parts_plain [of p]
  by (intro exI [of _ "path_parts p"]) (simp add: sanitize_path_parts)

section \<open>What the handler answers\<close>

lemma make_file_handler_Inr:
  "make_file_handler os r rp exts = Inr h \<longleftrightarrow>
     os_exists os (slash_root r) = Inr True \<and> os_is_directory os (slash_root r) = Inr True \<and>
     h = \<lparr>root = slash_root r, route_prefix = rp, supported_extensions = exts\<rparr>"
  by (auto simp: make_file_handler_def andThen_eq_Inr split: if_splits)

lemma sanitize_relative: "\<exists>p. relative_path h request = sanitize_path p"
  by (auto simp: relative_path_def Let_def)

lemma file_handle_ok_body:
  assumes "file_handle_request h request w = (Inr r, w')" "status_code r = Some 200"
  shows "let full_path = root h @ relative_path h request
    in os_exists (files w) full_path = Inr True \<and>
       os_is_regular_file (files w) full_path = Inr True \<and>
       is_supported_file_type h full_path \<and>
       os_read (files w) full_path = Some (message_body r)"
  using assms
  by (auto simp: file_handle_request_def Let_def andThen_eq_Inr split: if_splits option.splits)

text \<open>
  C39: what a 200 of the file handler reveals. A handler that was constructed without an exception
  has a root that exists and is a directory; whatever request it then answers with 200, the body is
  the content of a regular file whose resolved path lies below that root and whose lower-cased
  extension is one of the configured ones.
\<close>

theorem file_handler_serves_below_root:
  assumes "make_file_handler os r rp exts = Inr h"
    and "file_handle_request h request w = (Inr response, w')" "status_code response = Some 200"
  shows "os_is_directory os (slash_root r) = Inr True \<and>
    (\<exists>full_path parts. list_all plain_part parts \<and>
      resolve full_path = resolve (slash_root r) @ parts \<and>
      os_is_regular_file (files w) full_path = Inr True \<and>
      to_lower (path_extension full_path) \<in> exts \<and>
      os_read (files w) full_path = Some (message_body response))"
proof -
  note h = make_file_handler_Inr [THEN iffD1, OF assms(1)]
  obtain p where p: "relative_path h request = sanitize_path p"
    using sanitize_relative by blast
  let ?full = "slash_root r @ join_parts (path_parts p)"
  have "os_is_regular_file (files w) ?full = Inr True \<and> is_supported_file_type h ?full \<and>
      os_read (files w) ?full = Some (message_body response)"
    using file_handle_ok_body [OF assms(2,3)] h p by (simp add: Let_def sanitize_path_parts)
  then show ?thesis
    using h resolve_below [OF path_parts_plain, of r p] path_parts_plain [of p]
    by (auto simp: is_supported_file_type_def)
qed

text \<open>A file system with one directory and one file, for the examples.\<close>

definition one_file_os :: "string \<Rightarrow> string \<Rightarrow> string \<Rightarrow> os_files" where
  "one_file_os dir file_path bytes =
     \<lparr>os_exists = (\<lambda>p. Inr (p = dir \<or> p = file_path)),
      os_is_directory = (\<lambda>p. Inr (p = dir)),
      os_is_regular_file = (\<lambda>p. Inr (p = file_path)),
      os_read = (\<lambda>p. if p = file_path then Some bytes else None)\<rparr>"

theorem file_handler_serves_below_root_witness:
  "\<exists>os h request w response w'. make_file_handler os ''/d'' ''/static'' {''.txt''} = Inr h \<and>
     path request = ''/static/../a.TXT'' \<and>
     file_handle_request h request w = (Inr response, w') \<and>
     (os_is_directory os (slash_root ''/d'') = Inr True \<and>
      (\<exists>full_path parts. list_all plain_part parts \<and>
        resolve full_path = resolve (slash_root ''/d'') @ parts \<and>
        os_is_regular_file (files w) full_path = Inr True \<and>
        to_lower (path_extension full_path) \<in> {''.txt''} \<and>
        os_read (files w) full_path = Some (message_body response)))"
proof -
  let ?os = "one_file_os ''/d/'' ''/d/a.TXT'' ''hi''"
  let ?h = "\<lparr>root = ''/d/'', route_prefix = ''/static'', supported_extensions = {''.txt''}\<rparr>"
  let ?q = "empty_request\<lparr>path := ''/static/../a.TXT''\<rparr>"
  let ?w = "\<lparr>store = mock_empty, files = ?os, slept = []\<rparr>"
  let ?r = "reply 200 ''OK'' (get_mime_type ''/d/a.TXT'') ''hi''"
  have make: "make_file_handler ?os ''/d'' ''/static'' {''.txt''} = Inr ?h"
    by (simp add: make_file_handler_Inr slash_root_def one_file_os_def)
  have rel: "relative_path ?h ?q = ''a.TXT''" by code_simp
  have supported: "is_supported_file_type ?h ''/d/a.TXT''" by code_simp
  have run: "file_handle_request ?h ?q ?w = (Inr ?r, ?w)"
    using supported by (simp add: file_handle_request_def rel one_file_os_def Let_def)
  have status: "status_code ?r = Some 200" by simp
  note served = file_handler_serves_below_root [OF make run status]
  show ?thesis
    by (intro exI [of _ ?os] exI [of _ ?h] exI [of _ ?q] exI [of _ ?w] exI [of _ ?r] conjI)
      (rule make, simp, rule run, rule conjunct1 [OF served], rule conjunct2 [OF served])
qed

lemma to_lower_idem [simp]: "to_lower (to_lower s) = to_lower s"
  by (simp add: to_lower_def)

text \<open>
  Extensions are compared in lower case, but a configured extension is stored as written. A
  configured set of which every member contains an upper-case letter therefore matches no file: no
  request is answered with 200.
\<close>

theorem uppercase_extensions_never_match:
  assumes "make_file_handler os r rp exts = Inr h" "\<forall>e \<in> exts. to_lower e \<noteq> e"
    and "file_handle_request h request w = (Inr response, w')"
  shows "status_code response \<noteq> Some 200"
proof
  assume "status_code response = Some 200"
  with file_handle_ok_body [OF assms(3)]
  have "is_supported_file_type h (root h @ relative_path h request)" by (simp add: Let_def)
  then have "to_lower (path_extension (root h @ relative_path h request)) \<in> exts"
    using make_file_handler_Inr [THEN iffD1, OF assms(1)] by (simp add: is_supported_file_type_def)
  with assms(2) show False by fastforce
qed

theorem uppercase_extensions_never_match_witness:
  "\<exists>os h request w response w'. make_file_handler os ''/d'' ''/static'' {''.TXT''} = Inr h \<and>
     path request = ''/static/a.TXT'' \<and>
     file_handle_request h request w = (Inr response, w') \<and> status_code response \<noteq> Some 200"
proof -
  let ?os = "one_file_os ''/d/'' ''/d/a.TXT'' ''hi''"
  let ?h = "\<lparr>root = ''/d/'', route_prefix = ''/static'', supported_extensions = {''.TXT''}\<rparr>"
  let ?q = "empty_request\<lparr>path := ''/static/a.TXT''\<rparr>"
  let ?w = "\<lparr>store = mock_empty, files = ?os, slept = []\<rparr>"
  let ?r = "reply 415 ''Unsupported Media Type'' ''text/plain'' ''415 - Unsupported file type''"
  have make: "make_file_handler ?os ''/d'' ''/static'' {''.TXT''} = Inr ?h"
    by (simp add: make_file_handler_Inr slash_root_def one_file_os_def)
  have rel: "relative_path ?h ?q = ''a.TXT''" by code_simp
  have unsupported: "\<not> is_supported_file_type ?h ''/d/a.TXT''" by code_simp
  have run: "file_handle_request ?h ?q ?w = (Inr ?r, ?w)"
    using unsupported by (simp add: file_handle_request_def rel one_file_os_def Let_def)
  have upper: "\<forall>e \<in> {''.TXT''}. to_lower e \<noteq> e" by code_simp
  from make run uppercase_extensions_never_match [OF make upper run]
  have "make_file_handler ?os ''/d'' ''/static'' {''.TXT''} = Inr ?h \<and>
     path ?q = ''/static/a.TXT'' \<and>
     file_handle_request ?h ?q ?w = (Inr ?r, ?w) \<and> status_code ?r \<noteq> Some 200" by simp
  then show ?thesis by blast
qed

lemma default_mime_known: "e \<in> DEFAULT_EXTENSIONS \<Longrightarrow> map_of mime_types e \<noteq> None"
  by (auto simp: DEFAULT_EXTENSIONS_def mime_types_def)

text \<open>
  With the default extensions every file that is served has a MIME type of the table: the
  fallback \<open>application/octet-stream\<close> is never sent, and the content type is the one that the table
  gives for the lower-cased extension of the file.
\<close>

theorem default_handler_mime_type:
  assumes "make_default_file_handler os r rp = Inr h"
    and "file_handle_request h request w = (Inr response, w')" "status_code response = Some 200"
  shows "\<exists>t. map_of (headers_map response) ''Content-Type'' = Some t \<and>
    map_of mime_types (to_lower (path_extension (root h @ relative_path h request))) = Some t \<and>
    t \<noteq> ''application/octet-stream''"
proof -
  let ?full = "root h @ relative_path h request"
  have "supported_extensions h = DEFAULT_EXTENSIONS"
    using assms(1) by (simp add: make_default_file_handler_def make_file_handler_Inr)
  then have ext: "to_lower (path_extension ?full) \<in> DEFAULT_EXTENSIONS"
    using file_handle_ok_body [OF assms(2,3)] by (simp add: Let_def is_supported_file_type_def)
  then obtain t where t: "map_of mime_types (to_lower (path_extension ?full)) = Some t"
    using default_mime_known by blast
  then have "t \<in> set (map snd mime_types)"
    by (force dest: map_of_SomeD)
  moreover have "''application/octet-stream'' \<notin> set (map snd mime_types)" by code_simp
  ultimately have known: "t \<noteq> ''application/octet-stream''" by blast
  have "response = reply 200 ''OK'' (get_mime_type ?full) (message_body response)"
    using assms(2,3)
    by (auto simp: file_handle_request_def Let_def andThen_eq_Inr split: if_splits option.splits)
  then have "headers_map response = headers_map (reply 200 ''OK'' t (message_body response))"
    using t by (simp add: get_mime_type_def)
  then show ?thesis
    using t known by (simp add: reply_def)
qed

theorem default_handler_mime_type_witness:
  "\<exists>os h request w response w' t. make_default_file_handler os ''/d'' ''/static'' = Inr h \<and>
     file_handle_request h request w = (Inr response, w') \<and>
     map_of (headers_map response) ''Content-Type'' = Some t \<and>
     map_of mime_types (to_lower (path_extension (root h @ relative_path h request))) = Some t \<and>
     t \<noteq> ''application/octet-stream''"
proof -
  let ?os = "one_file_os ''/d/'' ''/d/a.svg'' ''x''"
  let ?h = "\<lparr>root = ''/d/'', route_prefix = ''/static'', supported_extensions = DEFAULT_EXTENSIONS\<rparr>"
  let ?q = "empty_request\<lparr>path := ''/static/a.svg''\<rparr>"
  let ?w = "\<lparr>store = mock_empty, files = ?os, slept = []\<rparr>"
  let ?r = "reply 200 ''OK'' (get_mime_type ''/d/a.svg'') ''x''"
  have make: "make_default_file_handler ?os ''/d'' ''/static'' = Inr ?h"
    by (simp add: make_default_file_handler_def make_file_handler_Inr slash_root_def one_file_os_def)
  have rel: "relative_path ?h ?q = ''a.svg''" by code_simp
  have supported: "is_supported_file_type ?h ''/d/a.svg''" by code_simp
  have run: "file_handle_request ?h ?q ?w = (Inr ?r, ?w)"
    using supported by (simp add: file_handle_request_def rel one_file_os_def Let_def)
  have status: "status_code ?r = Some 200" by simp
  from make run default_handler_mime_type [OF make run status] show ?thesis by blast
qed

end
