(* ===== verification/Handler_Factory.thy ===== *)
theory Handler_Factory
  imports File_Handler Crud_Handler Server_Config
begin

text \<open>
  \<open>HandlerFactory\<close> (src/handler_factory.cc, include/handler_factory.h) and the virtual calls on what
  it creates. A handler object is a value of the datatype \<open>handler\<close>; a null pointer is \<open>None\<close>. All
  CRUD handlers share one \<open>MockFilesystem\<close> (a function-local static), which is the \<open>store\<close> of the
  world.
\<close>

datatype handler =
    EchoHandler
  | HealthHandler
  | NotFoundHandler
  | SleepHandler int
  | FileHandler file_handler
  | CrudHandler string

section \<open>Virtual calls\<close>

definition crud_world_request ::
  "string \<Rightarrow> http_request \<Rightarrow> world \<Rightarrow> http_response outcome \<times> world" where
  "crud_world_request p request w =
     (let (r, s) = crud_handle_request (mock_crud p) request (store w) in (r, w\<lparr>store := s\<rparr>))"

fun handle_request :: "handler \<Rightarrow> http_request \<Rightarrow> world \<Rightarrow> http_response outcome \<times> world" where
  "handle_request EchoHandler = echo_handle_request"
| "handle_request HealthHandler = health_handle_request"
| "handle_request NotFoundHandler = not_found_handle_request"
| "handle_request (SleepHandler n) = sleep_handle_request n"
| "handle_request (FileHandler h) = file_handle_request h"
| "handle_request (CrudHandler p) = crud_world_request p"

fun get_handler_name :: "handler \<Rightarrow> string" where
  "get_handler_name EchoHandler = echo_handler_name"
| "get_handler_name HealthHandler = health_handler_name"
| "get_handler_name NotFoundHandler = not_found_handler_name"
| "get_handler_name (SleepHandler n) = sleep_handler_name"
| "get_handler_name (FileHandler h) = file_handler_name"
| "get_handler_name (CrudHandler p) = crud_handler_name"

lemmas handler_name_defs = echo_handler_name_def health_handler_name_def not_found_handler_name_def
  sleep_handler_name_def file_handler_name_def crud_handler_name_def

section \<open>Creation\<close>

definition trim_extension :: "string \<Rightarrow> string" where
  "trim_extension ext =
     (let ext = (case find_first_not_of [SP, TAB] ext of None \<Rightarrow> [] | Some i \<Rightarrow> drop i ext)
      in case find_last_not_of [SP, TAB] ext of None \<Rightarrow> [] | Some j \<Rightarrow> take (j + 1) ext)"

definition add_extension :: "string \<Rightarrow> string set \<Rightarrow> string set" where
  "add_extension ext extensions =
     (let ext = trim_extension ext
      in if ext = [] then extensions
         else insert (if hd ext \<noteq> CHR ''.'' then CHR ''.'' # ext else ext) extensions)"

definition parse_extensions :: "string \<Rightarrow> string set" where
  "parse_extensions ext_string = fold add_extension (getlines (CHR '','') ext_string) {}"

definition create_handler ::
  "os_files \<Rightarrow> handler_config \<Rightarrow> string \<Rightarrow> handler option outcome" where
  "create_handler os config p =
     (if handler_type config = ''EchoHandler'' then Inr (Some EchoHandler)
      else if handler_type config = ''HealthHandler'' then Inr (Some HealthHandler)
      else if handler_type config = ''StaticHandler'' then
        (case map_of (settings config) ''root'' of
           None \<Rightarrow> Inr None
         | Some r \<Rightarrow>
             andThen
               (case map_of (settings config) ''supported_extensions'' of
                  Some exts \<Rightarrow> make_file_handler os r p (parse_extensions exts)
                | None \<Rightarrow> make_default_file_handler os r p)
               (\<lambda>h. Inr (Some (FileHandler h))))
      else if handler_type config = ''CrudHandler'' then Inr (Some (CrudHandler p))
      else if handler_type config = ''SleepHandler'' then
        andThen
          (case map_of (settings config) ''sleep_seconds'' of
             None \<Rightarrow> Inr 5
           | Some v \<Rightarrow> stoi v)
          (\<lambda>n. Inr (Some (SleepHandler n)))
      else Inr (Some NotFoundHandler))"

section \<open>Every handler meets the interface\<close>

lemma crud_contract_sendable:
  "crud_contract c v r v' \<Longrightarrow> sendable r"
  by (cases c) (auto simp: answers_def split: option.splits if_splits)

interpretation crud: total_request_handler "crud_world_request p" for p
proof unfold_locales
  fix w q r e
  assume w: "world_ok w"
  then have "mock_ok (store w)" by (simp add: world_ok_def)
  from mock.crud_meets_contract [OF this] obtain r' s' where
    run: "crud_handle_request (mock_crud p) q (store w) = (Inr r', s')" "mock_ok s'"
    and c: "crud_contract (crud_call_of p q) (mock_view (store w)) r' (mock_view s')"
    by blast
  show "world_ok (snd (crud_world_request p q w))"
    using w run by (simp add: crud_world_request_def world_ok_def)
  show "fst (crud_world_request p q w) = Inr r \<Longrightarrow> sendable r"
    using run crud_contract_sendable [OF c] by (simp add: crud_world_request_def)
  show "fst (crud_world_request p q w) = Inl e \<Longrightarrow> is_exception e"
    using run by (simp add: crud_world_request_def)
  show "succeeds (fst (crud_world_request p q w))"
    using run by (simp add: crud_world_request_def)
qed

interpretation any: request_handler "handle_request h" for h
  by (cases h) (simp_all add: echo.request_handler_axioms health.request_handler_axioms
      not_found.request_handler_axioms sleep.request_handler_axioms
      static_files.request_handler_axioms crud.request_handler_axioms)

section \<open>When creation gives no handler\<close>

lemma make_file_handler_error:
  assumes "os_ok os" "make_file_handler os r p exts = Inl e"
  shows "(\<exists>m. e = Filesystem_error m) \<or> (\<exists>m. e = Invalid_argument m)"
proof -
  let ?p = "slash_root r"
  have os: "os_exists os ?p = Inl e \<or> os_is_directory os ?p = Inl e \<Longrightarrow> \<exists>m. e = Filesystem_error m"
    using assms(1) unfolding os_ok_def by blast
  show ?thesis
    using assms(2) os by (auto simp: make_file_handler_def andThen_eq_Inl split: if_splits)
qed

text \<open>
  What \<open>create_handler\<close> gives. A null pointer comes only from a \<open>StaticHandler\<close> without a root;
  an exception only from a \<open>StaticHandler\<close> whose root cannot be used or a \<open>SleepHandler\<close> whose
  seconds are no \<open>int\<close>; in every other case there is a handler, named as the configuration says, and a
  type that the factory does not know is served by \<open>NotFoundHandler\<close>.
\<close>

theorem create_handler_outcomes:
  assumes "os_ok os"
  shows "case create_handler os c p of
      Inl e \<Rightarrow>
        handler_type c = ''StaticHandler'' \<and> map_of (settings c) ''root'' \<noteq> None \<and>
          ((\<exists>m. e = Filesystem_error m) \<or> (\<exists>m. e = Invalid_argument m)) \<or>
        handler_type c = ''SleepHandler'' \<and>
          (\<exists>v. map_of (settings c) ''sleep_seconds'' = Some v \<and> stoi v = Inl e)
    | Inr None \<Rightarrow> handler_type c = ''StaticHandler'' \<and> map_of (settings c) ''root'' = None
    | Inr (Some h) \<Rightarrow>
        get_handler_name h =
          (if handler_type c = ''StaticHandler'' then ''FileHandler''
           else if handler_type c \<in> set [''EchoHandler'', ''HealthHandler'', ''CrudHandler'', ''SleepHandler'']
           then handler_type c else ''NotFoundHandler'')"
proof (cases "handler_type c = ''StaticHandler''")
  case True
  show ?thesis
  proof (cases "map_of (settings c) ''root''")
    case None
    with True show ?thesis by (simp add: create_handler_def)
  next
    case (Some r)
    define mk where "mk = (case map_of (settings c) ''supported_extensions'' of
                  Some exts \<Rightarrow> make_file_handler os r p (parse_extensions exts)
                | None \<Rightarrow> make_default_file_handler os r p)"
    have "create_handler os c p = andThen mk (\<lambda>h. Inr (Some (FileHandler h)))"
      using True Some by (simp add: create_handler_def mk_def)
    moreover have "(\<exists>m. e = Filesystem_error m) \<or> (\<exists>m. e = Invalid_argument m)" if "mk = Inl e" for e
      using that make_file_handler_error [OF assms]
      by (auto simp: mk_def make_default_file_handler_def split: option.splits)
    ultimately show ?thesis
      using True Some by (cases mk) (simp_all add: handler_name_defs)
  qed
next
  case False
  show ?thesis
  proof (cases "handler_type c = ''SleepHandler''")
    case True
    then show ?thesis
      by (cases "map_of (settings c) ''sleep_seconds''")
        (simp_all add: create_handler_def handler_name_defs split: sum.split, cases "stoi (the (map_of (settings c) ''sleep_seconds''))", simp_all add: handler_name_defs)
  next
    case sleep: False
    with False show ?thesis by (simp add: create_handler_def handler_name_defs)
  qed
qed

theorem create_handler_outcomes_witness:
  "\<exists>h. create_handler (one_file_os ''/d/'' ''/d/a'' []) \<lparr>handler_type = ''Proxy'', settings = []\<rparr> ''/s'' =
     Inr (Some h) \<and> get_handler_name h = ''NotFoundHandler''"
proof -
  let ?os = "one_file_os ''/d/'' ''/d/a'' []" and ?c = "\<lparr>handler_type = ''Proxy'', settings = []\<rparr>"
  have "os_ok ?os" by (simp add: os_ok_def one_file_os_def)
  from create_handler_outcomes [OF this, of ?c "''/s''"] show ?thesis
    by (cases "create_handler ?os ?c ''/s''") (simp_all split: option.splits)
qed

section \<open>The list of extensions\<close>

text \<open>One extension as it can be written in the list: blanks around it, the dot optional.\<close>

definition ext_blank :: "char \<Rightarrow> bool" where
  "ext_blank c \<longleftrightarrow> c = SP \<or> c = TAB"

definition ext_word :: "string \<Rightarrow> bool" where
  "ext_word e \<longleftrightarrow> e \<noteq> [] \<and> \<not> ext_blank (hd e) \<and> \<not> ext_blank (last e) \<and> CHR '','' \<notin> set e"

definition padded :: "string \<times> string \<times> string \<Rightarrow> string" where
  "padded = (\<lambda>(a, e, b). a @ e @ b)"

definition padding_ok :: "string \<times> string \<times> string \<Rightarrow> bool" where
  "padding_ok = (\<lambda>(a, e, b). list_all ext_blank a \<and> list_all ext_blank b \<and> (e = [] \<or> ext_word e))"

definition dotted :: "string \<Rightarrow> string" where
  "dotted e = (if hd e = CHR ''.'' then e else CHR ''.'' # e)"

fun comma_list :: "string list \<Rightarrow> string" where
  "comma_list [] = []"
| "comma_list [x] = x"
| "comma_list (x # y # xs) = x @ '','' @ comma_list (y # xs)"

lemma find_first_not_blank:
  assumes "list_all ext_blank a"
  shows "find_first_not_of [SP, TAB] (a @ s) = map_option (\<lambda>i. length a + i) (find_first_not_of [SP, TAB] s)"
  using assms
proof (induction a)
  case Nil
  show ?case by (cases "find_first_not_of [SP, TAB] s") simp_all
next
  case (Cons c a)
  then show ?case
    by (cases "find_first_not_of [SP, TAB] s") (auto simp: ext_blank_def)
qed

lemma find_first_not_word:
  "ext_word e \<Longrightarrow> find_first_not_of [SP, TAB] (e @ b) = Some 0"
  by (cases e) (auto simp: ext_word_def ext_blank_def)

lemma find_last_not_word:
  assumes "ext_word e" "list_all ext_blank b"
  shows "find_last_not_of [SP, TAB] (e @ b) = Some (length e - 1)"
proof -
  have "find_first_not_of [SP, TAB] (rev e) = Some 0"
    using assms(1) by (cases e rule: rev_cases) (auto simp: ext_word_def ext_blank_def)
  then have "find_first_not_of [SP, TAB] (rev b @ rev e) = Some (length b)"
    using find_first_not_blank [of "rev b" "rev e"] assms(2) by simp
  then show ?thesis by (simp add: find_last_not_of_def)
qed

lemma trim_extension_padded:
  assumes "padding_ok (a, e, b)"
  shows "trim_extension (a @ e @ b) = e"
proof (cases "e = []")
  case True
  then have "find_first_not_of [SP, TAB] (a @ e @ b) = None"
    using assms by (auto simp: padding_ok_def find_first_not_of_eq list_all_iff ext_blank_def)
  then show ?thesis by (simp add: trim_extension_def find_last_not_of_def True)
next
  case False
  with assms have e: "ext_word e" "list_all ext_blank a" "list_all ext_blank b"
    by (simp_all add: padding_ok_def)
  have "0 < length e" using False by simp
  then show ?thesis
    using find_first_not_blank [OF e(2), of "e @ b"] find_first_not_word [OF e(1), of b]
      find_last_not_word [OF e(1,3)]
    by (simp add: trim_extension_def)
qed

lemma add_extension_padded:
  "padding_ok (a, e, b) \<Longrightarrow>
     add_extension (a @ e @ b) X = (if e = [] then X else insert (dotted e) X)"
  by (simp add: add_extension_def trim_extension_padded dotted_def)

lemma blank_no_comma: "list_all ext_blank a \<Longrightarrow> CHR '','' \<notin> set a"
  by (induction a) (auto simp: ext_blank_def)

lemma padded_no_comma:
  assumes "padding_ok x"
  shows "CHR '','' \<notin> set (padded x)"
proof -
  obtain a e b where x: "x = (a, e, b)" by (cases x)
  then have "CHR '','' \<notin> set a" "CHR '','' \<notin> set b" "CHR '','' \<notin> set e"
    using assms blank_no_comma by (auto simp: padding_ok_def ext_word_def)
  then show ?thesis by (simp add: x padded_def)
qed

lemma fold_getlines_comma:
  assumes "\<forall>x \<in> set xs. CHR '','' \<notin> set x" and "\<And>X. f [] X = X"
  shows "fold f (getlines (CHR '','') (comma_list xs)) X = fold f xs X"
  using assms(1)
proof (induction xs arbitrary: X rule: comma_list.induct)
  case (2 x)
  then show ?case by (cases "x = []") (simp_all add: assms(2) getlines_last)
next
  case (3 x y xs)
  have "getlines (CHR '','') (x @ CHR '','' # comma_list (y # xs)) = x # getlines (CHR '','') (comma_list (y # xs))"
    using "3.prems" by (intro getlines_line) simp
  with 3 show ?case by simp
qed simp

text \<open>
  \<open>parse_extensions\<close> reads a comma-separated list, however it is padded with blanks: empty items
  are skipped and every other item is stored with exactly one dot in front.
\<close>

theorem parse_extensions_list:
  assumes "list_all padding_ok items"
  shows "parse_extensions (comma_list (map padded items)) =
    dotted ` {e. \<exists>a b. (a, e, b) \<in> set items \<and> e \<noteq> []}"
proof -
  have no_comma: "\<forall>x \<in> set (map padded items). CHR '','' \<notin> set x"
    using assms padded_no_comma by (auto simp: list_all_iff)
  have "add_extension [] X = X" for X
    using add_extension_padded [of "[]" "[]" "[]" X] by (simp add: padding_ok_def)
  then have "parse_extensions (comma_list (map padded items)) = fold add_extension (map padded items) {}"
    unfolding parse_extensions_def by (intro fold_getlines_comma no_comma)
  moreover have "fold add_extension (map padded items) X =
      X \<union> dotted ` {e. \<exists>a b. (a, e, b) \<in> set items \<and> e \<noteq> []}" for X
    using assms
  proof (induction items arbitrary: X)
    case (Cons x items)
    obtain a e b where x: "x = (a, e, b)" by (cases x)
    have "add_extension (padded x) X = (if e = [] then X else insert (dotted e) X)"
      using Cons.prems add_extension_padded [of a e b X] by (simp add: x padded_def)
    moreover have "{e'. \<exists>a b. (a, e', b) \<in> set (x # items) \<and> e' \<noteq> []} =
        (if e = [] then {} else {e}) \<union> {e'. \<exists>a b. (a, e', b) \<in> set items \<and> e' \<noteq> []}"
      by (auto simp: x)
    ultimately show ?case using Cons by auto
  qed simp
  ultimately show ?thesis by simp
qed

theorem parse_extensions_list_witness:
  "parse_extensions (comma_list (map padded [('' '', ''txt'', []), ([], ''.md'', '' ''), ([], [], [])])) =
     dotted ` {e. \<exists>a b. (a, e, b) \<in> set [('' '', ''txt'', []), ([], ''.md'', '' ''), ([], [], [])] \<and> e \<noteq> []}"
  by (rule parse_extensions_list) code_simp

end
