(* ===== verification/Path_Router.thy ===== *)
theory Path_Router
  imports Handler_Factory
begin

text \<open>
  \<open>PathRouter\<close> (src/path_router.cc, include/path_router.h): the search for the longest route that is
  a prefix of the path. \<open>max_len\<close> is an \<open>int\<close> in the code and a natural number here: the two agree
  as long as no route in the configuration has \<open>2 ^ 31\<close> characters.
\<close>

type_synonym routes = "(string, handler_config) std_map"

definition make_path_router :: "server_config \<Rightarrow> routes" where
  "make_path_router config = Server_Config.routes config"

text \<open>One pass of the loop over \<open>(prefix_match, max_len)\<close>.\<close>

definition match_route :: "string \<Rightarrow> string \<times> handler_config \<Rightarrow> string \<times> nat \<Rightarrow> string \<times> nat" where
  "match_route p = (\<lambda>(route_path, config) (prefix_match, max_len).
     if prefix route_path p \<and> length route_path > max_len
     then (route_path, length route_path) else (prefix_match, max_len))"

definition best_route :: "routes \<Rightarrow> string \<Rightarrow> string" where
  "best_route rs p = fst (fold (match_route p) rs ([], 0))"

definition match_handler :: "os_files \<Rightarrow> routes \<Rightarrow> string \<Rightarrow> handler option outcome" where
  "match_handler os rs p =
     (if best_route rs p \<noteq> [] then
        (case map_of rs (best_route rs p) of
           None \<Rightarrow> Inl (Out_of_range ''map::at'')
         | Some config \<Rightarrow> create_handler os config (best_route rs p))
      else create_handler os \<lparr>handler_type = ''NotFoundHandler'', settings = []\<rparr> p)"

section \<open>The longest prefix wins\<close>

lemma match_route_fold:
  "fold (match_route p) rs (m, length m) = (b, n) \<Longrightarrow> prefix m p \<Longrightarrow>
     n = length b \<and> prefix b p \<and> (b = m \<or> b \<in> fst ` set rs) \<and> length m \<le> length b \<and>
     (\<forall>r \<in> fst ` set rs. prefix r p \<longrightarrow> length r \<le> length b)"
proof (induction rs arbitrary: m)
  case (Cons x rs)
  obtain r c where x: "x = (r, c)" by (cases x)
  show ?case
  proof (cases "prefix r p \<and> length m < length r")
    case True
    with Cons.prems have "fold (match_route p) rs (r, length r) = (b, n)"
      by (simp add: x match_route_def)
    with Cons.IH [of r] True show ?thesis by (auto simp: x)
  next
    case False
    with Cons.prems have "fold (match_route p) rs (m, length m) = (b, n)"
      by (auto simp: x match_route_def split: if_splits)
    with Cons.IH [of m] Cons.prems(2) False show ?thesis by (auto simp: x)
  qed
qed simp

lemma best_route_facts:
  "prefix (best_route rs p) p"
  "best_route rs p \<noteq> [] \<Longrightarrow> best_route rs p \<in> fst ` set rs"
  "r \<in> fst ` set rs \<Longrightarrow> prefix r p \<Longrightarrow> length r \<le> length (best_route rs p)"
proof -
  obtain b n where "fold (match_route p) rs ([], length ([] :: string)) = (b, n)"
    by (cases "fold (match_route p) rs ([], length ([] :: string))")
  from match_route_fold [OF this] this
  show "prefix (best_route rs p) p"
    and "best_route rs p \<noteq> [] \<Longrightarrow> best_route rs p \<in> fst ` set rs"
    and "r \<in> fst ` set rs \<Longrightarrow> prefix r p \<Longrightarrow> length r \<le> length (best_route rs p)"
    by (auto simp: best_route_def)
qed

lemma map_of_route: "map_of rs r = Some c \<Longrightarrow> r \<in> fst ` set rs"
  by (force dest: map_of_SomeD)

lemma best_route_config:
  assumes "best_route rs p \<noteq> []"
  obtains c where "map_of rs (best_route rs p) = Some c"
  using best_route_facts(2) [OF assms] by (metis map_of_eq_None_iff option.exhaust)

lemma best_route_eq:
  assumes "map_of rs r = Some c" "prefix r p"
    and "\<And>r' c'. map_of rs r' = Some c' \<Longrightarrow> prefix r' p \<Longrightarrow> length r' \<le> length r"
  shows "best_route rs p = r"
proof -
  have le: "length r \<le> length (best_route rs p)"
    by (rule best_route_facts(3) [OF map_of_route [OF assms(1)] assms(2)])
  have "length (best_route rs p) \<le> length r"
  proof (cases "best_route rs p = []")
    case False
    then obtain c' where "map_of rs (best_route rs p) = Some c'" by (rule best_route_config)
    from assms(3) [OF this best_route_facts(1)] show ?thesis .
  qed simp
  with le have "length (best_route rs p) = length r" by simp
  moreover obtain a where "p = best_route rs p @ a"
    using best_route_facts(1) [of rs p] by (auto simp: prefix_def)
  moreover obtain b where "p = r @ b" using assms(2) by (auto simp: prefix_def)
  ultimately show ?thesis by (metis append_eq_append_conv)
qed

lemma best_route_none:
  assumes "\<And>r c. map_of rs r = Some c \<Longrightarrow> prefix r p \<Longrightarrow> r = []"
  shows "best_route rs p = []"
proof (rule ccontr)
  assume ne: "best_route rs p \<noteq> []"
  obtain c where "map_of rs (best_route rs p) = Some c" using best_route_config [OF ne] .
  from assms [OF this best_route_facts(1)] ne show False by contradiction
qed

text \<open>
  C30: the router picks the longest route that is a prefix of the path and creates the handler of its
  configuration with that route as the prefix; when no route but perhaps the empty one matches, the
  path is served by \<open>NotFoundHandler\<close>. The choice depends on the map of routes only, and the
  lookup after the search never fails. Prefixes are compared by characters, so a route \<open>/api\<close> also
  catches \<open>/apix\<close>.
\<close>

theorem match_handler_longest_prefix:
  "(\<forall>r c. map_of rs r = Some c \<and> r \<noteq> [] \<and> prefix r p \<and>
      (\<forall>r' c'. map_of rs r' = Some c' \<and> prefix r' p \<longrightarrow> length r' \<le> length r) \<longrightarrow>
      match_handler os rs p = create_handler os c r) \<and>
   ((\<forall>r c. map_of rs r = Some c \<and> prefix r p \<longrightarrow> r = []) \<longrightarrow>
      match_handler os rs p = Inr (Some NotFoundHandler)) \<and>
   ((\<exists>r c. map_of rs r = Some c \<and> r \<noteq> [] \<and> prefix r p) \<longrightarrow>
      (\<exists>r c. map_of rs r = Some c \<and> prefix r p \<and> r \<noteq> [] \<and>
        match_handler os rs p = create_handler os c r))"
proof (intro conjI allI impI, elim conjE)
  fix r c
  assume r: "map_of rs r = Some c" "r \<noteq> []" "prefix r p"
    and longest: "\<forall>r' c'. map_of rs r' = Some c' \<and> prefix r' p \<longrightarrow> length r' \<le> length r"
  have "best_route rs p = r"
    using longest by (intro best_route_eq [OF r(1,3)]) blast
  with r show "match_handler os rs p = create_handler os c r"
    by (simp add: match_handler_def)
next
  assume "\<forall>r c. map_of rs r = Some c \<and> prefix r p \<longrightarrow> r = []"
  then have "best_route rs p = []" by (intro best_route_none) blast
  then show "match_handler os rs p = Inr (Some NotFoundHandler)"
    by (simp add: match_handler_def create_handler_def)
next
  assume "\<exists>r c. map_of rs r = Some c \<and> r \<noteq> [] \<and> prefix r p"
  then obtain r c where r: "map_of rs r = Some c" "r \<noteq> []" "prefix r p" by (elim exE conjE)
  have "length r \<le> length (best_route rs p)"
    by (rule best_route_facts(3) [OF map_of_route [OF r(1)] r(3)])
  with r(2) have ne: "best_route rs p \<noteq> []" by (cases r) auto
  obtain c where "map_of rs (best_route rs p) = Some c" using best_route_config [OF ne] .
  with ne best_route_facts(1) [of rs p] show "\<exists>r c. map_of rs r = Some c \<and> prefix r p \<and> r \<noteq> [] \<and>
        match_handler os rs p = create_handler os c r"
    by (intro exI [of _ "best_route rs p"] exI [of _ c]) (simp add: match_handler_def)
qed

theorem match_handler_longest_prefix_witness:
  "match_handler (one_file_os ''/d/'' ''/d/a'' [])
     [(''/'', \<lparr>handler_type = ''EchoHandler'', settings = []\<rparr>),
      (''/api'', \<lparr>handler_type = ''CrudHandler'', settings = []\<rparr>)] ''/api/Shoes'' =
   create_handler (one_file_os ''/d/'' ''/d/a'' []) \<lparr>handler_type = ''CrudHandler'', settings = []\<rparr> ''/api''"
proof -
  let ?rs = "[(''/'', \<lparr>handler_type = ''EchoHandler'', settings = []\<rparr>),
      (''/api'', \<lparr>handler_type = ''CrudHandler'', settings = []\<rparr>)]"
  have le: "length r' \<le> length ''/api''" if "map_of ?rs r' = Some c' \<and> prefix r' ''/api/Shoes''" for r' c'
    using that by (cases "r' = ''/''"; cases "r' = ''/api''") simp_all
  have "map_of ?rs ''/api'' = Some \<lparr>handler_type = ''CrudHandler'', settings = []\<rparr> \<and>
      ''/api'' \<noteq> [] \<and> prefix ''/api'' ''/api/Shoes'' \<and>
      (\<forall>r' c'. map_of ?rs r' = Some c' \<and> prefix r' ''/api/Shoes'' \<longrightarrow> length r' \<le> length ''/api'')"
    by (intro conjI allI impI) (simp, simp, simp, rule le)
  then show ?thesis
    by (rule match_handler_longest_prefix [THEN conjunct1, THEN spec, THEN spec, THEN mp])
qed

end
