(* ===== verification/Session.thy ===== *)
theory Session
  imports Path_Router Http_Helper Logger
begin

text \<open>
  \<open>Session\<close> (src/session.cc, include/session.h): the completion handlers of one connection. Boost.Asio
  is outside the repository: a handler returns the asynchronous operations it starts, in order, and
  the environment decides when they complete. \<open>buffer_\<close> is the state of the session; the router and
  the world are passed along. \<open>client_ip\<close> is what \<open>remote_endpoint()\<close> gives, \<open>None\<close> when it raises. An
  exception that leaves a handler is \<open>raised\<close>; what happened before it stays. The operation that a
  handler starts cannot complete before the handler has ended, and the bytes of a write are those at
  the time of the call; \<open>Session_Overlap\<close> drops both simplifications.
  Sizes are natural numbers, except for the 64-bit value of \<open>Content-Length\<close>.
\<close>

section \<open>State and effects\<close>

datatype io_op = Async_read_some | Async_write string

record session =
  buffer :: string

definition make_session :: session where
  "make_session = \<lparr>buffer = []\<rparr>"

definition max_length :: nat where
  "max_length = 1024"

record handled =
  session_after :: session
  world_after :: world
  started :: "io_op list"
  logged :: "log_record list"
  raised :: "cpp_error option"

section \<open>Reading\<close>

definition client_ip_text :: "string option \<Rightarrow> string" where
  "client_ip_text ip = (case ip of None \<Rightarrow> ''unknown'' | Some a \<Rightarrow> a)"

definition response_metrics :: "int \<Rightarrow> string \<Rightarrow> string \<Rightarrow> string option \<Rightarrow> log_record" where
  "response_metrics code p hname ip =
     logMachineParsable (''[ResponseMetrics] response_code:'' @ to_string_int code @ '' path:'' @ p @
       '' handler:'' @ hname @ '' ip:'' @ client_ip_text ip)"

text \<open>The three places that answer 400: write the response, log, clear the buffer.\<close>

definition reject ::
  "string \<Rightarrow> log_record list \<Rightarrow> string option \<Rightarrow> session \<Rightarrow> world \<Rightarrow> handled" where
  "reject message logs ip s w =
     (case convert_to_string (reply 400 ''Bad Request'' ''text/plain'' message) of
        Inl e \<Rightarrow> \<lparr>session_after = s, world_after = w, started = [], logged = logs, raised = Some e\<rparr>
      | Inr response_str \<Rightarrow>
          \<lparr>session_after = s\<lparr>buffer := []\<rparr>, world_after = w,
           started = [Async_write response_str],
           logged = logs @ [response_metrics 400 (path (parse (buffer s))) ''MalformedRequest'' ip],
           raised = None\<rparr>)"

text \<open>
  \<open>body_start\<close>: the position after the empty line, in the CR LF form if there is one. It is computed
  after \<open>detect_http_request\<close> has found an empty line, so the last case does not arise.
\<close>

definition body_start :: "string \<Rightarrow> nat" where
  "body_start buf =
     (let header_end = (case str_find (CRLF @ CRLF) buf of
                          Some i \<Rightarrow> i
                        | None \<Rightarrow> (case str_find [LF, LF] buf of Some i \<Rightarrow> i | None \<Rightarrow> 0))
      in if str_find (CRLF @ CRLF) buf \<noteq> None then header_end + 4 else header_end + 2)"

text \<open>The wait for the rest of a body: \<open>None\<close> means go on with the request.\<close>

definition check_body ::
  "http_request \<Rightarrow> string option \<Rightarrow> session \<Rightarrow> world \<Rightarrow> handled option" where
  "check_body request ip s w =
     (case get_request_header ''Content-Length'' request of
        None \<Rightarrow> None
      | Some v \<Rightarrow>
          (case stoull v of
             Inl e \<Rightarrow>
               Some (reject ''Invalid Content-Length header''
                 [logDebugFile ''Invalid Content-Length header''] ip s w)
           | Inr content_length \<Rightarrow>
               (let body_received = length (buffer s) - body_start (buffer s)
                in if body_received < unat content_length
                   then Some \<lparr>session_after = s, world_after = w, started = [Async_read_some],
                     logged = [logDebugFile (''Waiting for complete body: '' @
                       to_string_nat body_received @ ''/'' @ to_string_nat (unat content_length) @
                       '' bytes'')],
                     raised = None\<rparr>
                   else None)))"

text \<open>Routing, handling and answering a valid request.\<close>

definition send_response ::
  "http_request \<Rightarrow> http_response \<Rightarrow> string \<Rightarrow> log_record list \<Rightarrow> string option \<Rightarrow> session \<Rightarrow> world \<Rightarrow>
     handled" where
  "send_response request response hname logs ip s w =
     (case andThen (convert_to_string response) (\<lambda>response_str.
             andThen (get_status_code response) (\<lambda>code. Inr (response_str, code))) of
        Inl e \<Rightarrow> \<lparr>session_after = s, world_after = w, started = [], logged = logs, raised = Some e\<rparr>
      | Inr (response_str, code) \<Rightarrow>
          \<lparr>session_after = s\<lparr>buffer := []\<rparr>, world_after = w,
           started = [Async_write response_str],
           logged = logs @ [response_metrics code (path request) hname ip],
           raised = None\<rparr>)"

definition serve ::
  "routes \<Rightarrow> http_request \<Rightarrow> string option \<Rightarrow> session \<Rightarrow> world \<Rightarrow> handled" where
  "serve router request ip s w =
     (case match_handler (files w) router (path request) of
        Inl e \<Rightarrow> \<lparr>session_after = s, world_after = w, started = [], logged = [], raised = Some e\<rparr>
      | Inr None \<Rightarrow>
          send_response request
            (reply 404 ''Not Found'' ''text/html'' ''<h1>404 Not Found</h1>'') ''NotFoundHandler''
            [logDebugFile (''No handler found for path: '' @ path request)] ip s w
      | Inr (Some h) \<Rightarrow>
          (let logs = [logDebugFile (''Request for path '' @ [SQUOTE] @ path request @ [SQUOTE] @
                         '' is being handled by '' @ get_handler_name h)]
           in case handle_request h request w of
                (Inl e, w) \<Rightarrow>
                  \<lparr>session_after = s, world_after = w, started = [], logged = logs, raised = Some e\<rparr>
              | (Inr response, w) \<Rightarrow>
                  send_response request response (get_handler_name h) logs ip s w))"

text \<open>The branch for a buffer in which no empty line is found.\<close>

definition keep_reading :: "session \<Rightarrow> world \<Rightarrow> handled" where
  "keep_reading s w =
     \<lparr>session_after = s, world_after = w, started = [Async_read_some],
      logged = [logDebugFile ''Read handler ''], raised = None\<rparr>"

definition handle_read ::
  "routes \<Rightarrow> bool \<Rightarrow> string \<Rightarrow> string option \<Rightarrow> session \<Rightarrow> world \<Rightarrow> handled" where
  "handle_read router failed bytes ip s w =
     (if failed
      then \<lparr>session_after = s, world_after = w, started = [], logged = [], raised = None\<rparr>
      else
        (let s = s\<lparr>buffer := buffer s @ bytes\<rparr>
         in if check_malformed_request (buffer s) \<noteq> NoneMalformed
            then reject ''Malformed HTTP request'' [] ip s w
            else if detect_http_request (buffer s) then
              (let request = parse (buffer s)
               in case check_body request ip s w of
                    Some h \<Rightarrow> h
                  | None \<Rightarrow>
                      if \<not> is_valid request
                      then reject ''Malformed HTTP request''
                             [logDebugFile ''Received malformed HTTP request''] ip s w
                      else serve router request ip s w)
            else keep_reading s w))"

section \<open>Starting and writing\<close>

definition start :: "session \<Rightarrow> world \<Rightarrow> handled" where
  "start s w =
     \<lparr>session_after = s, world_after = w, started = [Async_read_some], logged = [], raised = None\<rparr>"

definition handle_write :: "bool \<Rightarrow> session \<Rightarrow> world \<Rightarrow> handled" where
  "handle_write failed s w =
     (if failed
      then \<lparr>session_after = s, world_after = w, started = [], logged = [], raised = None\<rparr>
      else \<lparr>session_after = s, world_after = w, started = [Async_read_some],
            logged = [logDebugFile ''write handler''], raised = None\<rparr>)"

section \<open>What every completion handler does\<close>

lemma reply_serialised: "\<exists>str. convert_to_string (reply sc rp ct mb) = Inr str"
  by (simp add: convert_to_string_def get_status_code_def)

text \<open>The bytes of a 400.\<close>

definition bad_request_bytes :: "string \<Rightarrow> string" where
  "bad_request_bytes message =
     (case convert_to_string (reply 400 ''Bad Request'' ''text/plain'' message) of
        Inl e \<Rightarrow> [] | Inr str \<Rightarrow> str)"

lemma bad_request_bytes:
  "convert_to_string (reply 400 ''Bad Request'' ''text/plain'' message) = Inr (bad_request_bytes message)"
  using reply_serialised [of 400 "''Bad Request''" "''text/plain''" message]
  by (auto simp: bad_request_bytes_def)

lemma reject_eq:
  "reject message logs ip s w =
     \<lparr>session_after = s\<lparr>buffer := []\<rparr>, world_after = w,
      started = [Async_write (bad_request_bytes message)],
      logged = logs @ [response_metrics 400 (path (parse (buffer s))) ''MalformedRequest'' ip],
      raised = None\<rparr>"
  by (simp add: reject_def bad_request_bytes)

text \<open>A string that the session may write: the serialisation of a response that can be sent.\<close>

definition response_bytes :: "string \<Rightarrow> bool" where
  "response_bytes str \<longleftrightarrow> (\<exists>r. sendable r \<and> convert_to_string r = Inr str)"

lemma response_bytes_bad_request: "response_bytes (bad_request_bytes message)"
  unfolding response_bytes_def
  by (intro exI [of _ "reply 400 ''Bad Request'' ''text/plain'' message"]) (simp add: bad_request_bytes)

text \<open>The outcome of a completion handler, whatever path it took.\<close>

definition handled_ok :: "handled \<Rightarrow> bool" where
  "handled_ok h \<longleftrightarrow> world_ok (world_after h) \<and>
     (case raised h of
        Some e \<Rightarrow> is_exception e \<and> started h = []
      | None \<Rightarrow>
          started h = [Async_read_some] \<and>
            (buffer (session_after h) = [] \<or> contains end_of_head (buffer (session_after h))) \<or>
          (\<exists>str. started h = [Async_write str] \<and> response_bytes str \<and>
            buffer (session_after h) = []))"

lemma handled_ok_reject: "world_ok w \<Longrightarrow> handled_ok (reject message logs ip s w)"
  by (simp add: handled_ok_def reject_eq response_bytes_bad_request)

lemma handled_ok_send:
  assumes "sendable r" "world_ok w"
  shows "handled_ok (send_response request r hname logs ip s w)"
proof -
  obtain str where "convert_to_string r = Inr str"
    using assms(1) by (auto simp: sendable_def convert_to_string_def get_status_code_def)
  moreover obtain code where "get_status_code r = Inr code"
    using assms(1) by (auto simp: sendable_def get_status_code_def)
  moreover have "response_bytes str"
    using assms(1) calculation(1) by (auto simp: response_bytes_def)
  ultimately show ?thesis
    using assms(2) by (simp add: handled_ok_def send_response_def)
qed

lemma create_handler_raises:
  assumes "os_ok os" "create_handler os c p = Inl e"
  shows "is_exception e"
proof -
  have made: "is_exception x" if "make_file_handler os r p exts = Inl x" for x r exts
    using make_file_handler_error [OF assms(1) that] by auto
  have "is_exception x" if "stoi v = Inl x" for x v
    using stoi_fails_cases [OF that] by auto
  then show ?thesis
    using assms(2) made
    by (auto simp: create_handler_def make_default_file_handler_def andThen_eq_Inl
        split: if_splits option.splits)
qed

lemma match_handler_raises:
  "os_ok os \<Longrightarrow> match_handler os router p = Inl e \<Longrightarrow> is_exception e"
  using create_handler_raises
  by (auto simp: match_handler_def split: if_splits option.splits)

lemma handled_ok_serve:
  assumes "world_ok w"
  shows "handled_ok (serve router request ip s w)"
proof (cases "match_handler (files w) router (path request)")
  case (Inl e)
  have "is_exception e"
    using match_handler_raises [OF _ Inl] assms by (simp add: world_ok_def)
  with Inl assms show ?thesis by (simp add: serve_def handled_ok_def)
next
  case (Inr ho)
  show ?thesis
  proof (cases ho)
    case None
    with Inr assms show ?thesis by (simp add: serve_def handled_ok_send)
  next
    case (Some h)
    obtain r w' where run: "handle_request h request w = (r, w')"
      by (cases "handle_request h request w")
    show ?thesis
      using Inr Some run assms any.keeps_world [OF assms, of h request]
        any.sends [OF assms, of h request] any.raises [OF assms, of h request]
      by (cases r) (simp_all add: serve_def handled_ok_send, simp add: handled_ok_def)
  qed
qed

lemma handled_ok_body:
  assumes "check_body request ip s w = Some h" "world_ok w" "contains end_of_head (buffer s)"
  shows "handled_ok h"
proof -
  obtain v where v: "get_request_header ''Content-Length'' request = Some v"
    using assms(1) by (cases "get_request_header ''Content-Length'' request")
      (simp_all add: check_body_def)
  show ?thesis
  proof (cases "stoull v")
    case (Inl e)
    with v assms handled_ok_reject show ?thesis by (auto simp: check_body_def)
  next
    case (Inr n)
    with v assms show ?thesis
      by (auto simp: check_body_def handled_ok_def Let_def split: if_splits)
  qed
qed

lemma handled_ok_read:
  assumes "world_ok w"
  shows "handled_ok (handle_read router False bytes ip s w)"
proof (cases "contains end_of_head (buffer s @ bytes)")
  case False
  with assms show ?thesis by (simp add: handle_read_def handled_ok_reject)
next
  case True
  then have detected: "detect_http_request (buffer s @ bytes)"
    by (intro not_malformed_detected) simp
  let ?s = "s\<lparr>buffer := buffer s @ bytes\<rparr>"
  show ?thesis
  proof (cases "check_body (parse (buffer s @ bytes)) ip ?s w")
    case None
    with True detected assms show ?thesis
      by (simp add: handle_read_def Let_def handled_ok_reject handled_ok_serve)
  next
    case (Some h)
    with True detected assms handled_ok_body [OF Some] show ?thesis
      by (simp add: handle_read_def Let_def)
  qed
qed

section \<open>A connection as a transition system\<close>

text \<open>
  The state of one connection: the operations that are pending, what the client has been sent, and
  the exception that ended it. The environment completes pending operations with success or
  failure, and other connections may change the world at any time.
\<close>

record connection =
  conn_session :: session
  conn_world :: world
  pending :: "io_op list"
  sent :: "string list"
  crash :: "cpp_error option"

definition after :: "io_op \<Rightarrow> handled \<Rightarrow> connection \<Rightarrow> connection" where
  "after operation h c =
     c\<lparr>conn_session := session_after h, conn_world := world_after h,
       pending := remove1 operation (pending c) @ started h, crash := raised h\<rparr>"

definition open_connection :: "world \<Rightarrow> connection" where
  "open_connection w =
     \<lparr>conn_session = session_after (start make_session w), conn_world = w,
      pending = started (start make_session w), sent = [], crash = None\<rparr>"

inductive conn_step :: "routes \<Rightarrow> string option \<Rightarrow> connection \<Rightarrow> connection \<Rightarrow> bool"
  for router ip where
  read_done:
    "crash c = None \<Longrightarrow> Async_read_some \<in> set (pending c) \<Longrightarrow> bytes \<noteq> [] \<Longrightarrow>
     length bytes \<le> max_length \<Longrightarrow>
     conn_step router ip c
       (after Async_read_some (handle_read router False bytes ip (conn_session c) (conn_world c)) c)"
| read_failed:
    "crash c = None \<Longrightarrow> Async_read_some \<in> set (pending c) \<Longrightarrow>
     conn_step router ip c
       (after Async_read_some (handle_read router True [] ip (conn_session c) (conn_world c)) c)"
| write_done:
    "crash c = None \<Longrightarrow> Async_write str \<in> set (pending c) \<Longrightarrow>
     conn_step router ip c
       ((after (Async_write str) (handle_write False (conn_session c) (conn_world c)) c)
          \<lparr>sent := sent c @ [str]\<rparr>)"
| write_failed:
    "crash c = None \<Longrightarrow> Async_write str \<in> set (pending c) \<Longrightarrow>
     conn_step router ip c
       (after (Async_write str) (handle_write True (conn_session c) (conn_world c)) c)"
| interference:
    "world_ok w' \<Longrightarrow> conn_step router ip c (c\<lparr>conn_world := w'\<rparr>)"

inductive_cases conn_stepE: "conn_step router ip c c'"

definition reachable :: "routes \<Rightarrow> string option \<Rightarrow> world \<Rightarrow> connection \<Rightarrow> bool" where
  "reachable router ip w c \<longleftrightarrow> (conn_step router ip)\<^sup>*\<^sup>* (open_connection w) c"

definition conn_ok :: "connection \<Rightarrow> bool" where
  "conn_ok c \<longleftrightarrow>
     world_ok (conn_world c) \<and> list_all response_bytes (sent c) \<and>
     (case crash c of
        Some e \<Rightarrow> is_exception e \<and> pending c = []
      | None \<Rightarrow>
          pending c = [] \<or>
          pending c = [Async_read_some] \<and>
            (buffer (conn_session c) = [] \<or> contains end_of_head (buffer (conn_session c))) \<or>
          (\<exists>str. pending c = [Async_write str] \<and> response_bytes str \<and> buffer (conn_session c) = []))"

lemma conn_ok_open: "world_ok w \<Longrightarrow> conn_ok (open_connection w)"
  by (simp add: conn_ok_def open_connection_def start_def make_session_def)

lemma conn_ok_after:
  assumes "handled_ok h" "pending c = [operation]" "list_all response_bytes (sent c)"
  shows "conn_ok (after operation h c)"
  using assms by (auto simp: conn_ok_def after_def handled_ok_def split: option.splits)

lemma conn_ok_pending:
  "conn_ok c \<Longrightarrow> operation \<in> set (pending c) \<Longrightarrow> pending c = [operation]"
  by (auto simp: conn_ok_def split: option.splits)

lemma conn_ok_step: "conn_step router ip c c' \<Longrightarrow> conn_ok c \<Longrightarrow> conn_ok c'"
proof (induction rule: conn_step.induct)
  case (read_done c bytes)
  then show ?case
    by (intro conn_ok_after handled_ok_read conn_ok_pending) (simp_all add: conn_ok_def)
next
  case (read_failed c)
  then show ?case
    using conn_ok_pending [OF read_failed(3,2)]
    by (simp add: conn_ok_def after_def handle_read_def)
next
  case (write_done c str)
  have p: "pending c = [Async_write str]"
    using conn_ok_pending [OF write_done(3,2)] .
  with write_done show ?case
    by (auto simp: conn_ok_def after_def handle_write_def)
next
  case (write_failed c str)
  then show ?case
    using conn_ok_pending [OF write_failed(3,2)]
    by (simp add: conn_ok_def after_def handle_write_def)
next
  case (interference w' c)
  then show ?case by (cases "crash c") (simp_all add: conn_ok_def)
qed

lemma conn_ok_reachable:
  assumes "world_ok w" "reachable router ip w c"
  shows "conn_ok c"
  using assms(2) unfolding reachable_def
  by (induction rule: rtranclp_induct) (use conn_ok_open [OF assms(1)] conn_ok_step in auto)

end
