(* ===== verification/Session_Spec.thy ===== *)
theory Session_Spec
  imports Session
begin

text \<open>
  What a connection does: the invariant of its state machine, when a read is answered, kept waiting
  or refused, and that a body may arrive in any number of pieces.
\<close>


definition example_world :: world where
  "example_world = \<lparr>store = mock_empty, files = one_file_os ''/d/'' ''/d/a.txt'' ''hi'', slept = []\<rparr>"

lemma world_ok_example: "world_ok example_world"
  using mock_empty_view by (simp add: world_ok_def example_world_def os_ok_def one_file_os_def)


section \<open>Reads that do not hold a whole head\<close>

lemma handle_read_reject:
  assumes "\<not> contains end_of_head (buffer s @ bytes)"
  shows "handle_read router False bytes ip s w =
    \<lparr>session_after = \<lparr>buffer = []\<rparr>, world_after = w,
     started = [Async_write (bad_request_bytes ''Malformed HTTP request'')],
     logged = [response_metrics 400 (path (parse (buffer s @ bytes))) ''MalformedRequest'' ip],
     raised = None\<rparr>"
  using assms by (simp add: handle_read_def reject_eq)

lemma logDebugFile_inject [simp]: "logDebugFile a = logDebugFile b \<longleftrightarrow> a = b"
  by (simp add: logDebugFile_def)

lemma response_metrics_not_debug [simp]: "logDebugFile a \<noteq> response_metrics code p hname ip"
  by (simp add: logDebugFile_def response_metrics_def logMachineParsable_def)

lemma debug_logs_reject [simp]:
  "logDebugFile a \<in> set (logged (reject message logs ip s w)) \<longleftrightarrow> logDebugFile a \<in> set logs"
  by (simp add: reject_eq)

lemma debug_logs_send [simp]:
  "logDebugFile a \<in> set (logged (send_response request r hname logs ip s w)) \<longleftrightarrow>
     logDebugFile a \<in> set logs"
  by (auto simp: send_response_def split: sum.split)

lemma no_read_handler_serve:
  "logDebugFile ''Read handler '' \<notin> set (logged (serve router request ip s w))"
  by (simp add: serve_def Let_def split: sum.split option.split prod.split)

lemma no_read_handler_body:
  "check_body request ip s w = Some h \<Longrightarrow> logDebugFile ''Read handler '' \<notin> set (logged h)"
  by (auto simp: check_body_def Let_def split: option.splits sum.splits if_splits)

text \<open>
  C37: a read that leaves the buffer without the end of a head is answered with 400 at once and the
  buffer is dropped, even when the bytes are the beginning of a valid request: a head that arrives in
  two reads is refused. The branch that is meant to keep reading in this case is never taken.
\<close>

theorem incomplete_head_rejected:
  "(\<not> contains end_of_head (buffer s @ bytes) \<longrightarrow>
     started (handle_read router False bytes ip s w) =
       [Async_write (bad_request_bytes ''Malformed HTTP request'')] \<and>
     buffer (session_after (handle_read router False bytes ip s w)) = [] \<and>
     world_after (handle_read router False bytes ip s w) = w) \<and>
   logDebugFile ''Read handler '' \<notin> set (logged (handle_read router False bytes ip s w))"
proof (cases "contains end_of_head (buffer s @ bytes)")
  case False
  then show ?thesis
    by (simp add: handle_read_reject)
next
  case True
  let ?s = "s\<lparr>buffer := buffer s @ bytes\<rparr>"
  have detected: "detect_http_request (buffer s @ bytes)"
    using True by (intro not_malformed_detected) simp
  have "logDebugFile ''Read handler '' \<notin> set (logged (handle_read router False bytes ip s w))"
  proof (cases "check_body (parse (buffer s @ bytes)) ip ?s w")
    case None
    with True detected no_read_handler_serve show ?thesis
      by (simp add: handle_read_def Let_def)
  next
    case (Some h)
    with True detected no_read_handler_body [OF Some] show ?thesis
      by (simp add: handle_read_def Let_def)
  qed
  with True show ?thesis by simp
qed

theorem incomplete_head_rejected_witness:
  "\<exists>first rest. is_valid (parse (first @ rest)) \<and>
     started (handle_read [] False first None make_session example_world) =
       [Async_write (bad_request_bytes ''Malformed HTTP request'')]"
proof (intro exI conjI)
  let ?first = "''GET / HTTP/1.1'' @ CRLF" and ?rest = "''Host: x'' @ CRLF @ CRLF"
  show "is_valid (parse (?first @ ?rest))" by code_simp
  have "\<not> contains end_of_head (buffer make_session @ ?first)" by code_simp
  with incomplete_head_rejected [of make_session ?first "[]" None example_world]
  show "started (handle_read [] False ?first None make_session example_world) =
       [Async_write (bad_request_bytes ''Malformed HTTP request'')]" by blast
qed

section \<open>Bodies that arrive in pieces\<close>

lemma handle_read_buffer:
  "handle_read router False bytes ip s w = handle_read router False (buffer s @ bytes) ip make_session w"
  by (cases s) (simp add: handle_read_def make_session_def)

text \<open>The bytes of a request that announces the length of its body.\<close>

definition request_bytes ::
  "string \<Rightarrow> string \<Rightarrow> string \<Rightarrow> (string \<times> string) list \<Rightarrow> string \<Rightarrow> string" where
  "request_bytes m p v hs b = http_message (request_line m p v # map header_field hs) b"

definition parsed_headers :: "(string \<times> string) list \<Rightarrow> (string, string) std_map" where
  "parsed_headers hs = map_put_all (map (\<lambda>(n, v). (n, trim v)) hs) []"

definition well_formed_head :: "string \<Rightarrow> string \<Rightarrow> string \<Rightarrow> (string \<times> string) list \<Rightarrow> bool" where
  "well_formed_head m p v hs \<longleftrightarrow>
     request_word m \<and> request_word p \<and> request_word v \<and> list_all field_ok hs"

lemma headers_request_bytes:
  "well_formed_head m p v hs \<Longrightarrow> headers (parse (request_bytes m p v hs b)) = parsed_headers hs"
  using parse_message [OF _ _ _ _ refl, of m p v hs b]
  by (simp add: well_formed_head_def request_bytes_def parsed_headers_def)

lemma request_bytes_append: "request_bytes m p v hs b @ c = request_bytes m p v hs (b @ c)"
  by (simp add: request_bytes_def http_message_def)

lemma length_request_bytes: "length (request_bytes m p v hs b) = length (request_bytes m p v hs []) + length b"
  by (simp add: request_bytes_def http_message_def)

lemma request_bytes_head:
  assumes "well_formed_head m p v hs"
  shows "str_find end_of_head (request_bytes m p v hs b) = Some (length (request_bytes m p v hs []) - 4)"
    and "body_start (request_bytes m p v hs b) = length (request_bytes m p v hs [])"
    and "contains end_of_head (request_bytes m p v hs b)"
proof -
  have line: "head_line (request_line m p v)" and lines: "\<forall>l \<in> set (map header_field hs). head_line l"
    using assms head_line_request head_line_field by (auto simp: well_formed_head_def list_all_iff)
  have four: "4 \<le> length (request_bytes m p v hs [])"
    by (simp add: request_bytes_def http_message_def request_line_def)
  show find: "str_find end_of_head (request_bytes m p v hs b) = Some (length (request_bytes m p v hs []) - 4)"
    using str_find_end_of_head [OF line lines, of b]
    by (simp add: request_bytes_def http_message_def)
  then show "contains end_of_head (request_bytes m p v hs b)"
    by (simp add: contains_def)
  have "str_find (CRLF @ CRLF) (request_bytes m p v hs b) = Some (length (request_bytes m p v hs []) - 4)"
    using find by (simp add: end_of_head_def)
  then show "body_start (request_bytes m p v hs b) = length (request_bytes m p v hs [])"
    using four by (simp add: body_start_def)
qed

definition waiting :: "string \<Rightarrow> world \<Rightarrow> handled \<Rightarrow> bool" where
  "waiting buf w h \<longleftrightarrow>
     session_after h = \<lparr>buffer = buf\<rparr> \<and> world_after h = w \<and> started h = [Async_read_some] \<and>
     raised h = None"

lemma handle_read_waits:
  assumes "well_formed_head m p v hs"
    and "find_header ''Content-Length'' (parsed_headers hs) = Some cl" "stoull cl = Inr n"
    and "length b < unat n"
  shows "waiting (request_bytes m p v hs b) w
    (handle_read router False (request_bytes m p v hs b) ip make_session w)"
proof -
  let ?raw = "request_bytes m p v hs b"
  have whole: "contains end_of_head ?raw" by (rule request_bytes_head(3) [OF assms(1)])
  then have "detect_http_request ?raw" by (intro not_malformed_detected) simp
  moreover have "get_request_header ''Content-Length'' (parse ?raw) = Some cl"
    by (simp add: get_request_header_def headers_request_bytes [OF assms(1)] assms(2))
  moreover have "length ?raw - body_start ?raw = length b"
    using length_request_bytes [of m p v hs b] by (simp add: request_bytes_head(2) [OF assms(1)])
  ultimately show ?thesis
    using whole assms(3,4)
    by (simp add: waiting_def handle_read_def check_body_def make_session_def)
qed

text \<open>The reads of a connection while each of them asks for more.\<close>

fun deliver ::
  "routes \<Rightarrow> string option \<Rightarrow> session \<Rightarrow> world \<Rightarrow> string list \<Rightarrow> handled list" where
  "deliver router ip s w [] = []"
| "deliver router ip s w (bytes # later) =
     (let h = handle_read router False bytes ip s w
      in h # (if started h = [Async_read_some] \<and> raised h = None
              then deliver router ip (session_after h) (world_after h) later else []))"

lemma deliver_pieces:
  assumes "well_formed_head m p v hs"
    and "find_header ''Content-Length'' (parsed_headers hs) = Some cl" "stoull cl = Inr n"
    and "length (b @ concat pieces) = unat n" "\<forall>x \<in> set pieces. x \<noteq> []" "pieces \<noteq> []"
  shows "\<exists>hs'. deliver router ip \<lparr>buffer = request_bytes m p v hs b\<rparr> w pieces =
      hs' @ [handle_read router False (request_bytes m p v hs (b @ concat pieces)) ip make_session w] \<and>
    length hs' + 1 = length pieces \<and> (\<forall>h \<in> set hs'. started h = [Async_read_some])"
  using assms(4-6)
proof (induction pieces arbitrary: b)
  case (Cons x later)
  have read: "handle_read router False x ip \<lparr>buffer = request_bytes m p v hs b\<rparr> w =
      handle_read router False (request_bytes m p v hs (b @ x)) ip make_session w"
    by (subst handle_read_buffer) (simp add: request_bytes_append)
  show ?case
  proof (cases "later = []")
    case True
    then show ?thesis by (intro exI [of _ "[]"]) (simp add: read Let_def)
  next
    case False
    then have "length (b @ x) < unat n" using Cons.prems by (cases later) (auto simp: neq_Nil_conv)
    then have wait: "waiting (request_bytes m p v hs (b @ x)) w
        (handle_read router False x ip \<lparr>buffer = request_bytes m p v hs b\<rparr> w)"
      unfolding read by (rule handle_read_waits [OF assms(1-3)])
    obtain hs' where "deliver router ip \<lparr>buffer = request_bytes m p v hs (b @ x)\<rparr> w later =
        hs' @ [handle_read router False (request_bytes m p v hs ((b @ x) @ concat later)) ip make_session w]"
      "length hs' + 1 = length later" "\<forall>h \<in> set hs'. started h = [Async_read_some]"
      using Cons.IH [of "b @ x"] Cons.prems False by auto
    with wait show ?thesis
      by (intro exI [of _ "handle_read router False x ip \<lparr>buffer = request_bytes m p v hs b\<rparr> w # hs'"])
        (simp add: waiting_def Let_def)
  qed
qed simp

text \<open>
  C19: a body may arrive in any number of pieces. When the first read holds the whole head of a
  well-formed request and the pieces together hold as many bytes of body as \<open>Content-Length\<close> says, every
  read but the last only asks for more, and the last one does exactly what a single read of the whole
  request does: the same response, log, world and session.
\<close>

theorem body_in_pieces:
  assumes "well_formed_head m p v hs"
    and "find_header ''Content-Length'' (parsed_headers hs) = Some (to_string_nat (length b))"
    and "length b < 2 ^ 64" "concat pieces = b" "\<forall>x \<in> set pieces. x \<noteq> []" "pieces \<noteq> []"
  shows "\<exists>waits. deliver router ip make_session w (request_bytes m p v hs [] # pieces) =
      waits @ [handle_read router False (request_bytes m p v hs b) ip make_session w] \<and>
    length waits = length pieces \<and> (\<forall>h \<in> set waits. started h = [Async_read_some])"
proof -
  let ?n = "of_nat (length b) :: 64 word"
  have n: "stoull (to_string_nat (length b)) = Inr ?n" and len: "unat ?n = length b"
    using assms(3) by (simp_all add: stoull_to_string_nat unat_of_nat)
  have "b \<noteq> []" using assms(4-6) by (cases pieces) auto
  then have wait: "waiting (request_bytes m p v hs []) w
      (handle_read router False (request_bytes m p v hs []) ip make_session w)"
    using len by (intro handle_read_waits [OF assms(1,2) n]) simp
  obtain hs' where "deliver router ip \<lparr>buffer = request_bytes m p v hs []\<rparr> w pieces =
      hs' @ [handle_read router False (request_bytes m p v hs b) ip make_session w]"
    "length hs' + 1 = length pieces" "\<forall>h \<in> set hs'. started h = [Async_read_some]"
    using deliver_pieces [OF assms(1,2) n, of "[]" pieces router ip w] assms(4-6) len by auto
  with wait show ?thesis
    by (intro exI [of _ "handle_read router False (request_bytes m p v hs []) ip make_session w # hs'"])
      (simp add: waiting_def Let_def)
qed

theorem body_in_pieces_witness:
  "\<exists>waits. deliver [] None make_session example_world
       (request_bytes ''POST'' ''/a'' ''HTTP/1.1'' [(''Content-Length'', ''4'')] [] # [''ab'', ''cd'']) =
     waits @ [handle_read [] False
       (request_bytes ''POST'' ''/a'' ''HTTP/1.1'' [(''Content-Length'', ''4'')] ''abcd'') None
       make_session example_world] \<and>
     length waits = length [''ab'', ''cd''] \<and> (\<forall>h \<in> set waits. started h = [Async_read_some])"
proof (rule body_in_pieces)
  show "well_formed_head ''POST'' ''/a'' ''HTTP/1.1'' [(''Content-Length'', ''4'')]" by code_simp
  show "find_header ''Content-Length'' (parsed_headers [(''Content-Length'', ''4'')]) =
      Some (to_string_nat (length ''abcd''))" by code_simp
qed simp_all

text \<open>
  C40: a negative \<open>Content-Length\<close> is not refused. \<open>stoull\<close> turns \<open>-k\<close> into \<open>2 ^ 64 - k\<close>, so the session
  waits for that many bytes and a well-formed request with any realistic body is never answered.
\<close>

theorem negative_length_waits:
  assumes "well_formed_head m p v hs" "0 < k" "k < 2 ^ 64" "length b < 2 ^ 64 - k"
    and "find_header ''Content-Length'' (parsed_headers hs) = Some (CHR ''-'' # to_string_nat k)"
  shows "started (handle_read router False (request_bytes m p v hs b) ip make_session w) =
      [Async_read_some] \<and>
    buffer (session_after (handle_read router False (request_bytes m p v hs b) ip make_session w)) =
      request_bytes m p v hs b"
proof -
  have minus: "stoull (CHR ''-'' # to_string_nat k) = Inr (- of_nat k)"
    by (rule stoull_minus [OF assms(3)])
  have "unat (- of_nat k :: 64 word) = 2 ^ 64 - k"
    using assms(2,3) by (simp add: unat_minus_of_nat)
  then have "waiting (request_bytes m p v hs b) w
      (handle_read router False (request_bytes m p v hs b) ip make_session w)"
    using assms(4) by (intro handle_read_waits [OF assms(1,5) minus]) simp
  then show ?thesis by (simp add: waiting_def)
qed

theorem negative_length_waits_witness:
  "started (handle_read [] False
      (request_bytes ''POST'' ''/a'' ''HTTP/1.1'' [(''Content-Length'', ''-1'')] ''abcd'') None make_session
      example_world) = [Async_read_some] \<and>
   buffer (session_after (handle_read [] False
      (request_bytes ''POST'' ''/a'' ''HTTP/1.1'' [(''Content-Length'', ''-1'')] ''abcd'') None make_session
      example_world)) =
     request_bytes ''POST'' ''/a'' ''HTTP/1.1'' [(''Content-Length'', ''-1'')] ''abcd''"
proof (rule negative_length_waits)
  show "well_formed_head ''POST'' ''/a'' ''HTTP/1.1'' [(''Content-Length'', ''-1'')]" by code_simp
  show "find_header ''Content-Length'' (parsed_headers [(''Content-Length'', ''-1'')]) =
      Some (CHR ''-'' # to_string_nat 1)" by code_simp
qed simp_all

section \<open>Requests that are served, and exceptions\<close>

lemma handle_read_serves:
  assumes "is_valid (parse raw)"
    and "case get_request_header ''Content-Length'' (parse raw) of
           None \<Rightarrow> True
         | Some cl \<Rightarrow> \<exists>n. stoull cl = Inr n \<and> unat n \<le> length raw - body_start raw"
  shows "handle_read router False raw ip make_session w =
    serve router (parse raw) ip \<lparr>buffer = raw\<rparr> w"
proof -
  have whole: "contains end_of_head raw"
    using assms(1) by (simp add: is_valid_end_of_head)
  then have "detect_http_request raw" by (intro not_malformed_detected) simp
  moreover have "check_body (parse raw) ip \<lparr>buffer = raw\<rparr> w = None"
    using assms(2) by (auto simp: check_body_def split: option.splits)
  ultimately show ?thesis
    using whole assms(1) by (simp add: handle_read_def make_session_def)
qed

lemma served_valid:
  assumes "world_ok w" "is_valid (parse raw)"
    and "case get_request_header ''Content-Length'' (parse raw) of
           None \<Rightarrow> True
         | Some cl \<Rightarrow> \<exists>n. stoull cl = Inr n \<and> unat n \<le> length raw - body_start raw"
    and "match_handler (files w) router (path (parse raw)) = Inr (Some h)"
    and "handle_request h (parse raw) w = (Inr r, w')"
  shows "\<exists>str code. convert_to_string r = Inr str \<and> status_code r = Some code \<and>
    handle_read router False raw ip make_session w =
      \<lparr>session_after = \<lparr>buffer = []\<rparr>, world_after = w', started = [Async_write str],
       logged = [logDebugFile (''Request for path '' @ [SQUOTE] @ path (parse raw) @ [SQUOTE] @
                   '' is being handled by '' @ get_handler_name h),
                 response_metrics code (path (parse raw)) (get_handler_name h) ip],
       raised = None\<rparr>"
proof -
  have r: "sendable r"
    using any.sends [OF assms(1), of h "parse raw" r] assms(5) by simp
  then obtain str where str: "convert_to_string r = Inr str"
    by (auto simp: sendable_def convert_to_string_def get_status_code_def)
  from r obtain code where code: "status_code r = Some code" by (auto simp: sendable_def)
  show ?thesis
    using assms(4,5) str code handle_read_serves [OF assms(2,3), of router ip w]
    by (simp add: serve_def send_response_def get_status_code_def)
qed

text \<open>
  A complete and valid request is answered by the handler that the router chooses. The session
  writes exactly the serialisation of the handler's response, empties its buffer, keeps the world
  as the handler left it, and logs the name of the handler and one line with the status code, the
  path and the handler.
\<close>

theorem valid_request_served:
  assumes "world_ok w" "is_valid (parse raw)"
    and "case get_request_header ''Content-Length'' (parse raw) of
           None \<Rightarrow> True
         | Some cl \<Rightarrow> \<exists>n. stoull cl = Inr n \<and> unat n \<le> length raw - body_start raw"
    and "match_handler (files w) router (path (parse raw)) = Inr (Some h)"
    and "handle_request h (parse raw) w = (Inr r, w')"
  shows "\<exists>str code. convert_to_string r = Inr str \<and> status_code r = Some code \<and>
    handle_read router False raw ip make_session w =
      \<lparr>session_after = \<lparr>buffer = []\<rparr>, world_after = w', started = [Async_write str],
       logged = [logDebugFile (''Request for path '' @ [SQUOTE] @ path (parse raw) @ [SQUOTE] @
                   '' is being handled by '' @ get_handler_name h),
                 response_metrics code (path (parse raw)) (get_handler_name h) ip],
       raised = None\<rparr>"
  by (rule served_valid [OF assms])

theorem valid_request_served_witness:
  "\<exists>r w'. handle_request HealthHandler (parse (''GET /health HTTP/1.1'' @ end_of_head)) example_world =
       (Inr r, w') \<and>
     (\<exists>str code. convert_to_string r = Inr str \<and> status_code r = Some code \<and>
       started (handle_read [(''/health'', \<lparr>handler_type = ''HealthHandler'', settings = []\<rparr>)] False
         (''GET /health HTTP/1.1'' @ end_of_head) None make_session example_world) = [Async_write str])"
proof -
  let ?raw = "''GET /health HTTP/1.1'' @ end_of_head"
  let ?rs = "[(''/health'', \<lparr>handler_type = ''HealthHandler'', settings = []\<rparr>)]"
  have valid: "is_valid (parse ?raw)" by code_simp
  have complete: "case get_request_header ''Content-Length'' (parse ?raw) of
           None \<Rightarrow> True
         | Some cl \<Rightarrow> \<exists>n. stoull cl = Inr n \<and> unat n \<le> length ?raw - body_start ?raw"
  proof -
    have "get_request_header ''Content-Length'' (parse ?raw) = None" by code_simp
    then show ?thesis by simp
  qed
  have best: "best_route ?rs (path (parse ?raw)) = ''/health''" by code_simp
  have route: "match_handler (files example_world) ?rs (path (parse ?raw)) = Inr (Some HealthHandler)"
    unfolding match_handler_def best by (simp add: create_handler_def)
  have run: "handle_request HealthHandler (parse ?raw) example_world =
      (Inr (reply 200 ''OK'' ''text/plain'' ''OK''), example_world)"
    by (simp add: health_handle_request_def)
  from valid_request_served [OF world_ok_example valid complete route run, of None] run
  show ?thesis by (metis (no_types, lifting) handled.select_convs(3))
qed

lemma serve_raises:
  assumes "world_ok w" "raised (serve router request ip s w) = Some e"
  shows "started (serve router request ip s w) = [] \<and> session_after (serve router request ip s w) = s \<and>
    (match_handler (files w) router (path request) = Inl e \<or>
     (\<exists>h. match_handler (files w) router (path request) = Inr (Some h) \<and>
        fst (handle_request h request w) = Inl e))"
proof -
  have send: "raised (send_response request r hname logs ip s w) = None" if "sendable r" for r hname logs w
    using that by (auto simp: send_response_def sendable_def convert_to_string_def get_status_code_def)
  show ?thesis
  proof (cases "match_handler (files w) router (path request)")
    case (Inl x)
    with assms(2) show ?thesis by (simp add: serve_def)
  next
    case (Inr ho)
    show ?thesis
    proof (cases ho)
      case None
      with Inr assms(2) send show ?thesis by (simp add: serve_def)
    next
      case (Some h)
      obtain r w' where run: "handle_request h request w = (r, w')"
        by (cases "handle_request h request w")
      show ?thesis
        using Inr Some run assms(2) send any.sends [OF assms(1), of h request]
        by (cases r) (simp_all add: serve_def)
    qed
  qed
qed

lemma check_body_raises: "check_body request ip s w = Some h \<Longrightarrow> raised h = None"
  by (auto simp: check_body_def Let_def reject_eq split: option.splits sum.splits if_splits)

lemma raising_read:
  assumes "world_ok w" "raised (handle_read router failed bytes ip s w) = Some e"
  shows "is_valid (parse (buffer s @ bytes)) \<and>
    started (handle_read router failed bytes ip s w) = [] \<and>
    (match_handler (files w) router (path (parse (buffer s @ bytes))) = Inl e \<or>
     (\<exists>h. match_handler (files w) router (path (parse (buffer s @ bytes))) = Inr (Some h) \<and>
        fst (handle_request h (parse (buffer s @ bytes)) w) = Inl e))"
proof -
  let ?s = "s\<lparr>buffer := buffer s @ bytes\<rparr>" and ?q = "parse (buffer s @ bytes)"
  have ok: "\<not> failed" using assms(2) by (cases failed) (simp_all add: handle_read_def)
  have whole: "contains end_of_head (buffer s @ bytes)"
    using assms(2) ok by (rule_tac ccontr) (simp add: handle_read_reject)
  have detected: "detect_http_request (buffer s @ bytes)"
    using whole by (intro not_malformed_detected) simp
  have body: "check_body ?q ip ?s w = None"
    using assms(2) ok whole detected check_body_raises [of ?q ip ?s w]
    by (cases "check_body ?q ip ?s w") (simp_all add: handle_read_def Let_def)
  have valid: "is_valid ?q"
    using assms(2) ok whole detected body
    by (rule_tac ccontr) (simp add: handle_read_def Let_def reject_eq)
  have "handle_read router failed bytes ip s w = serve router ?q ip ?s w"
    using ok whole detected body valid by (simp add: handle_read_def Let_def)
  with serve_raises [OF assms(1), of router ?q ip ?s e] assms(2) valid show ?thesis by simp
qed

text \<open>A route whose sleep time is no number.\<close>

definition sleepy_routes :: routes where
  "sleepy_routes = [(''/s'', \<lparr>handler_type = ''SleepHandler'', settings = [(''sleep_seconds'', ''soon'')]\<rparr>)]"

definition sleepy_bytes :: string where
  "sleepy_bytes = ''GET /s HTTP/1.1'' @ end_of_head"

lemma sleepy_raises:
  "raised (handle_read sleepy_routes False sleepy_bytes None make_session example_world) =
     Some (Invalid_argument ''stoi'')"
proof -
  have valid: "is_valid (parse sleepy_bytes)" by code_simp
  have none: "get_request_header ''Content-Length'' (parse sleepy_bytes) = None" by code_simp
  have best: "best_route sleepy_routes (path (parse sleepy_bytes)) = ''/s''" by code_simp
  have "stoi ''soon'' = Inl (Invalid_argument ''stoi'')" by code_simp
  then have "match_handler (files example_world) sleepy_routes (path (parse sleepy_bytes)) =
      Inl (Invalid_argument ''stoi'')"
    unfolding match_handler_def best by (simp add: sleepy_routes_def create_handler_def)
  then show ?thesis
    using handle_read_serves [OF valid, of sleepy_routes None example_world] none
    by (simp add: serve_def)
qed

text \<open>
  An exception leaves a read handler only when creating or running the handler of a valid request
  raises it: a sleep time that is no number, a root that is gone, an error of the file system.
  Nothing catches it: no response is written and no further operation is started, so the connection
  is dead and the exception reaches the thread that runs the event loop.
\<close>

theorem read_raises:
  assumes "world_ok w" "raised (handle_read router failed bytes ip s w) = Some e"
  shows "is_valid (parse (buffer s @ bytes)) \<and>
    started (handle_read router failed bytes ip s w) = [] \<and>
    (match_handler (files w) router (path (parse (buffer s @ bytes))) = Inl e \<or>
     (\<exists>h. match_handler (files w) router (path (parse (buffer s @ bytes))) = Inr (Some h) \<and>
        fst (handle_request h (parse (buffer s @ bytes)) w) = Inl e))"
  by (rule raising_read [OF assms])

theorem read_raises_witness:
  "\<exists>e. raised (handle_read sleepy_routes False sleepy_bytes None make_session example_world) = Some e \<and>
     started (handle_read sleepy_routes False sleepy_bytes None make_session example_world) = []"
  using read_raises [OF world_ok_example sleepy_raises] sleepy_raises by blast

end
