(* ===== verification/Request_Boundaries.thy ===== *)
theory Request_Boundaries
  imports Session_Spec
begin

text \<open>
  Where a session takes a request to end. The response to a request is stated without connection,
  buffer or log (\<open>response_of\<close>), and a read that holds a whole request is shown to write it; everything
  after the head counts as body, whether \<open>Content-Length\<close> says so or not.
\<close>

section \<open>Responses\<close>

text \<open>The bytes of one read that hold a whole valid request.\<close>

definition whole_request :: "string \<Rightarrow> bool" where
  "whole_request raw \<longleftrightarrow>
     raw \<noteq> [] \<and> length raw \<le> max_length \<and> is_valid (parse raw) \<and>
     (case get_request_header ''Content-Length'' (parse raw) of
        None \<Rightarrow> True
      | Some cl \<Rightarrow> (case stoull cl of Inl e \<Rightarrow> False | Inr n \<Rightarrow> unat n \<le> length raw - body_start raw))"

text \<open>The response to a request, without connection, buffer or log.\<close>

definition response_of ::
  "routes \<Rightarrow> http_request \<Rightarrow> world \<Rightarrow> http_response outcome \<times> world" where
  "response_of router request w =
     (case match_handler (files w) router (path request) of
        Inl e \<Rightarrow> (Inl e, w)
      | Inr None \<Rightarrow> (Inr (reply 404 ''Not Found'' ''text/html'' ''<h1>404 Not Found</h1>''), w)
      | Inr (Some h) \<Rightarrow> handle_request h request w)"

lemma response_of_sendable:
  assumes "world_ok w" "response_of router q w = (Inr r, w')"
  shows "sendable r"
proof -
  have "handle_request h q w = (Inr r, w') \<Longrightarrow> sendable r" for h
    by (rule any.sends [OF assms(1), where h = h and q = q]) simp
  with assms(2) show ?thesis
    by (auto simp: response_of_def split: sum.splits option.splits)
qed

lemma serve_response:
  assumes "world_ok w" "response_of router q w = (Inr r, w')"
  shows "\<exists>str. convert_to_string r = Inr str \<and>
    session_after (serve router q a s w) = s\<lparr>buffer := []\<rparr> \<and> world_after (serve router q a s w) = w' \<and>
    started (serve router q a s w) = [Async_write str] \<and> raised (serve router q a s w) = None"
proof -
  obtain str code where str: "convert_to_string r = Inr str" "get_status_code r = Inr code"
    using response_of_sendable [OF assms]
    by (auto simp: sendable_def convert_to_string_def get_status_code_def)
  obtain ho where m: "match_handler (files w) router (path q) = Inr ho"
    using assms(2) by (cases "match_handler (files w) router (path q)") (simp_all add: response_of_def)
  show ?thesis
  proof (cases ho)
    case None
    with m str assms(2) show ?thesis by (auto simp: response_of_def serve_def send_response_def)
  next
    case (Some h)
    with m assms(2) have "handle_request h q w = (Inr r, w')" by (simp add: response_of_def)
    with m Some str show ?thesis by (simp add: serve_def send_response_def Let_def)
  qed
qed

lemma whole_request_serve:
  assumes "whole_request raw" "buffer s = []"
  shows "handle_read router False raw a s w = serve router (parse raw) a \<lparr>buffer = raw\<rparr> w"
proof -
  have cl: "case get_request_header ''Content-Length'' (parse raw) of
           None \<Rightarrow> True
         | Some cl \<Rightarrow> \<exists>n. stoull cl = Inr n \<and> unat n \<le> length raw - body_start raw"
    using assms(1) by (auto simp: whole_request_def split: option.splits sum.splits)
  have "s = make_session" using assms(2) by (simp add: make_session_def)
  with handle_read_serves [OF _ cl, where ip = a and router = router and w = w] assms(1)
  show ?thesis by (simp add: whole_request_def)
qed

lemma whole_request_served:
  assumes "whole_request raw" "world_ok w" "buffer s = []"
    and "response_of router (parse raw) w = (Inr r, w')"
  shows "\<exists>str. convert_to_string r = Inr str \<and>
    session_after (handle_read router False raw a s w) = \<lparr>buffer = []\<rparr> \<and>
    world_after (handle_read router False raw a s w) = w' \<and>
    started (handle_read router False raw a s w) = [Async_write str] \<and>
    raised (handle_read router False raw a s w) = None"
  using serve_response [OF assms(2,4), of a "\<lparr>buffer = raw\<rparr>"]
  by (simp add: whole_request_serve [OF assms(1,3)])

text \<open>A handler that does not raise has made a response.\<close>

lemma serve_calm:
  "raised (serve router q a s w) = None \<Longrightarrow> \<exists>r w'. response_of router q w = (Inr r, w')"
  by (auto simp: serve_def response_of_def Let_def split: sum.splits option.splits prod.splits)

text \<open>An example: a route to the health handler.\<close>

definition health_routes :: routes where
  "health_routes = [(''/health'', \<lparr>handler_type = ''HealthHandler'', settings = []\<rparr>)]"

definition health_bytes :: string where
  "health_bytes = ''GET /health HTTP/1.1'' @ end_of_head"

lemma health_response:
  "response_of health_routes (parse health_bytes) example_world =
     (Inr (reply 200 ''OK'' ''text/plain'' ''OK''), example_world)"
proof -
  have best: "best_route health_routes (path (parse health_bytes)) = ''/health''" by code_simp
  have "match_handler (files example_world) health_routes (path (parse health_bytes)) = Inr (Some HealthHandler)"
    unfolding match_handler_def best by (simp add: health_routes_def create_handler_def)
  then show ?thesis by (simp add: response_of_def health_handle_request_def)
qed

section \<open>The bytes after the head\<close>

lemma parse_request_bytes:
  assumes "well_formed_head m p v hs" "raw = request_bytes m p v hs b"
  shows "method (parse raw) = m" "path (parse raw) = p" "http_version (parse raw) = v"
    "body (parse raw) = chomp b" "raw_request (parse raw) = raw" "headers (parse raw) = parsed_headers hs"
  using parse_message [of m p v hs raw b] assms
  by (simp_all add: well_formed_head_def request_bytes_def parsed_headers_def)

lemma valid_request_bytes:
  assumes "well_formed_head m p ''HTTP/1.1'' hs" "m \<in> set valid_methods" "hd p = CHR ''/''"
  shows "is_valid (parse (request_bytes m p ''HTTP/1.1'' hs b))"
proof -
  let ?raw = "request_bytes m p ''HTTP/1.1'' hs b"
  have "contains end_of_head ?raw" by (rule request_bytes_head(3) [OF assms(1)])
  then have "str_find (CRLF @ CRLF) ?raw \<noteq> None" by (simp add: contains_def end_of_head_def)
  moreover have "request_word p" "request_word m" using assms(1) by (simp_all add: well_formed_head_def)
  ultimately show ?thesis
    using assms(2,3) request_word_no_space [of p] parse_request_bytes [OF assms(1) refl, of b]
    by (simp add: is_valid_def request_word_def)
qed

text \<open>
  C38: a session takes everything after the head for the body. When a read holds a valid request and more
  bytes than its \<open>Content-Length\<close> says, or any bytes without that header, all of them are handed to the
  handler as the body, exactly one response is written, and the buffer is emptied: a second request
  that the client has pipelined behind the first is part of that body and is never answered.
\<close>

theorem pipelined_request_swallowed:
  assumes "world_ok w" "well_formed_head m p ''HTTP/1.1'' hs" "m \<in> set valid_methods" "hd p = CHR ''/''"
    and "case find_header ''Content-Length'' (parsed_headers hs) of
           None \<Rightarrow> True
         | Some cl \<Rightarrow> \<exists>n. stoull cl = Inr n \<and> unat n \<le> length extra"
    and "response_of router (parse (request_bytes m p ''HTTP/1.1'' hs extra)) w = (Inr r, w')"
  shows "method (parse (request_bytes m p ''HTTP/1.1'' hs extra)) = m \<and>
    path (parse (request_bytes m p ''HTTP/1.1'' hs extra)) = p \<and>
    body (parse (request_bytes m p ''HTTP/1.1'' hs extra)) = chomp extra \<and>
    (\<exists>str. convert_to_string r = Inr str \<and>
      (let h = handle_read router False (request_bytes m p ''HTTP/1.1'' hs extra) ip make_session w
       in started h = [Async_write str] \<and> session_after h = make_session \<and> world_after h = w' \<and>
          raised h = None))"
proof -
  let ?raw = "request_bytes m p ''HTTP/1.1'' hs extra"
  note q = parse_request_bytes [OF assms(2) refl, of extra]
  have valid: "is_valid (parse ?raw)" by (rule valid_request_bytes [OF assms(2-4)])
  have "length ?raw - body_start ?raw = length extra"
    using length_request_bytes [of m p "''HTTP/1.1''" hs extra]
    by (simp add: request_bytes_head(2) [OF assms(2)])
  then have "case get_request_header ''Content-Length'' (parse ?raw) of
           None \<Rightarrow> True
         | Some cl \<Rightarrow> \<exists>n. stoull cl = Inr n \<and> unat n \<le> length ?raw - body_start ?raw"
    using assms(5) by (cases "find_header ''Content-Length'' (parsed_headers hs)")
      (simp_all add: get_request_header_def q(6))
  from handle_read_serves [OF valid this] serve_response [OF assms(1,6), of ip "\<lparr>buffer = ?raw\<rparr>"]
  show ?thesis by (auto simp: q Let_def make_session_def)
qed

theorem pipelined_request_swallowed_witness:
  "\<exists>str. length (started (handle_read health_routes False (health_bytes @ health_bytes) None make_session
       example_world)) = 1 \<and>
     started (handle_read health_routes False (health_bytes @ health_bytes) None make_session
       example_world) = [Async_write str]"
proof -
  have raw: "health_bytes @ health_bytes = request_bytes ''GET'' ''/health'' ''HTTP/1.1'' [] health_bytes"
    by code_simp
  have p: "path (parse (request_bytes ''GET'' ''/health'' ''HTTP/1.1'' [] health_bytes)) = ''/health''"
    by code_simp
  have best: "best_route health_routes ''/health'' = ''/health''" by code_simp
  have "match_handler (files example_world) health_routes ''/health'' = Inr (Some HealthHandler)"
    unfolding match_handler_def best by (simp add: health_routes_def create_handler_def)
  then have r: "response_of health_routes
      (parse (request_bytes ''GET'' ''/health'' ''HTTP/1.1'' [] health_bytes)) example_world =
      (Inr (reply 200 ''OK'' ''text/plain'' ''OK''), example_world)"
    by (simp add: response_of_def p health_handle_request_def)
  have "well_formed_head ''GET'' ''/health'' ''HTTP/1.1'' []" "''GET'' \<in> set valid_methods"
    by code_simp+
  from pipelined_request_swallowed [OF world_ok_example this _ _ r, of None]
  show ?thesis by (auto simp: raw Let_def parsed_headers_def)
qed

end
