(* ===== verification/End_To_End.thy ===== *)
theory End_To_End
  imports Request_Boundaries
begin

text \<open>
  From bytes to bytes: what a client that speaks HTTP over a connection sees of the CRUD API, through
  session, parser, router, handler, store and serialiser.
\<close>

section \<open>From bytes to bytes\<close>

lemma segment_no_query: "segment n \<Longrightarrow> CHR ''?'' \<notin> set n"
  by (simp add: segment_def)

lemma best_route_single: "p \<noteq> [] \<Longrightarrow> best_route [(p, c)] (p @ q) = p"
  by (simp add: best_route_def match_route_def)

definition crud_routes :: "string \<Rightarrow> routes" where
  "crud_routes p = [(p, \<lparr>handler_type = ''CrudHandler'', settings = []\<rparr>)]"

lemma match_crud_route: "p \<noteq> [] \<Longrightarrow> match_handler os (crud_routes p) (p @ q) = Inr (Some (CrudHandler p))"
  by (simp add: match_handler_def crud_routes_def best_route_single create_handler_def)

text \<open>A read of a whole valid request that a CRUD route serves with a reply.\<close>

lemma crud_read:
  assumes "world_ok w" "is_valid (parse raw)"
    and "case get_request_header ''Content-Length'' (parse raw) of
           None \<Rightarrow> True
         | Some cl \<Rightarrow> \<exists>n. stoull cl = Inr n \<and> unat n \<le> length raw - body_start raw"
    and "p \<noteq> []" "path (parse raw) = p @ q"
    and "crud_handle_request (mock_crud p) (parse raw) (store w) = (Inr (reply sc rp ct mb), s')"
    and "clean rp" "clean ct" "length mb < 2 ^ 64"
  shows "\<exists>str. started (handle_read (crud_routes p) False raw ip make_session w) = [Async_write str] \<and>
    world_after (handle_read (crud_routes p) False raw ip make_session w) = w\<lparr>store := s'\<rparr> \<and>
    (\<forall>rest. \<exists>head hs. client_receive (str @ rest) = Some (head, hs, mb, rest))"
proof -
  have route: "match_handler (files w) (crud_routes p) (path (parse raw)) = Inr (Some (CrudHandler p))"
    unfolding assms(5) by (rule match_crud_route [OF assms(4)])
  have run: "handle_request (CrudHandler p) (parse raw) w = (Inr (reply sc rp ct mb), w\<lparr>store := s'\<rparr>)"
    by (simp add: crud_world_request_def assms(6))
  have "clean_response (reply sc rp ct mb)" using assms(7,8) by simp
  from clean_reply_framing [OF _ _ this] assms(9) obtain str where
    "convert_to_string (reply sc rp ct mb) = Inr str"
    "\<forall>rest. \<exists>head hs. client_receive (str @ rest) = Some (head, hs, mb, rest)"
    by fastforce
  with served_valid [OF assms(1-3) route run, of ip] show ?thesis by auto
qed

lemma to_string_int_word:
  assumes "0 < k"
  shows "request_word (to_string_int k)" "length (to_string_int k) \<le> Suc (nat k)"
proof -
  have eq: "to_string_int k = to_string_nat (nat k)" using assms by (simp add: to_string_int_def)
  show "request_word (to_string_int k)"
    using to_string_nat_digits [of "nat k"] isdigit_not_isspace
    by (auto simp: eq request_word_def list_all_iff)
  show "length (to_string_int k) \<le> Suc (nat k)"
    using length_to_string_nat [of "nat k"] by (simp add: eq)
qed

lemma request_word_append:
  "request_word a \<Longrightarrow> request_word b \<Longrightarrow> request_word (a @ ''/'' @ b)"
  by (simp add: request_word_def isspace_def)

lemma field_ok_length: "field_ok (''Content-Length'', to_string_nat n)"
  using to_string_nat_digits [of n] by (auto simp: field_ok_def list_all_iff isdigit_def)

lemma trim_digits: "trim (to_string_nat n) = to_string_nat n"
proof (rule trim_id)
  have "\<not> ows c" if "isdigit c" for c
    using that by (auto simp: ows_def trim_chars_def isdigit_def)
  then show "to_string_nat n = [] \<or> \<not> ows (hd (to_string_nat n)) \<and> \<not> ows (last (to_string_nat n))"
    using to_string_nat_digits [of n] by simp
qed

lemma find_length_header:
  "find_header ''Content-Length'' (parsed_headers [(''Content-Length'', to_string_nat n)]) =
     Some (to_string_nat n)"
  by (simp add: parsed_headers_def map_put_all_def trim_digits)

lemma length_chomp: "length (chomp b) \<le> length b"
  by (simp add: chomp_def)

lemma post_answer:
  assumes "parse_entity_and_id_from_path p (path q) = Some (e, [], False)" "method q = ''POST''"
    and "mock_next_entity_id s e = Inr i"
  shows "crud_handle_request (mock_crud p) q s =
    (Inr (reply 201 ''Created'' ''application/json'' (id_body i)), snd (mock_write_entity e i (body q) s))"
  using assms mock_write_view(1) [of e i "body q" s]
  by (simp add: crud_handle_request_def handle_post_def id_body_def case_prod_unfold Let_def)

lemma get_answer:
  assumes "parse_entity_and_id_from_path p (path q) = Some (e, i, True)" "method q = ''GET''"
    and "mock_view s (name e) i = Some d"
  shows "crud_handle_request (mock_crud p) q s = (Inr (reply 200 ''OK'' ''application/json'' d), s)"
  using assms by (simp add: crud_handle_request_def handle_get_def mock_exists_view mock_read_view)

text \<open>The bytes of the two requests.\<close>

definition post_bytes :: "string \<Rightarrow> string \<Rightarrow> string \<Rightarrow> string" where
  "post_bytes p n b =
     request_bytes ''POST'' (p @ ''/'' @ n) ''HTTP/1.1'' [(''Content-Length'', to_string_nat (length b))] b"

definition get_bytes :: "string \<Rightarrow> string \<Rightarrow> string \<Rightarrow> string" where
  "get_bytes p n i = request_bytes ''GET'' (p @ ''/'' @ n @ ''/'' @ i) ''HTTP/1.1'' [] []"

text \<open>A path that a route can have and a request can ask for.\<close>

definition route_prefix_ok :: "string \<Rightarrow> bool" where
  "route_prefix_ok p \<longleftrightarrow> request_word p \<and> hd p = CHR ''/'' \<and> CHR ''?'' \<notin> set p"

lemma read_post:
  assumes "world_ok w" "route_prefix_ok p" "segment n" "request_word n" "length b < 2 ^ 64"
    and "mock_next_entity_id (store w) \<lparr>name = n\<rparr> = Inr i" "length (id_body i) < 2 ^ 64"
  shows "\<exists>str. started (handle_read (crud_routes p) False (post_bytes p n b) ip make_session w) =
      [Async_write str] \<and>
    world_after (handle_read (crud_routes p) False (post_bytes p n b) ip make_session w) =
      w\<lparr>store := snd (mock_write_entity \<lparr>name = n\<rparr> i (chomp b) (store w))\<rparr> \<and>
    (\<forall>rest. \<exists>head hs. client_receive (str @ rest) = Some (head, hs, id_body i, rest))"
proof -
  let ?hs = "[(''Content-Length'', to_string_nat (length b))]" and ?path = "p @ ''/'' @ n"
  have p: "request_word p" "hd p = CHR ''/''" "CHR ''?'' \<notin> set p" "p \<noteq> []"
    using assms(2) by (auto simp: route_prefix_ok_def request_word_def)
  have wf: "well_formed_head ''POST'' ?path ''HTTP/1.1'' ?hs"
    using request_word_append [OF p(1) assms(4)] field_ok_length
    by (simp add: well_formed_head_def) (simp add: request_word_def isspace_def)
  note parsed = parse_request_bytes [OF wf refl, of b, folded post_bytes_def]
  have valid: "is_valid (parse (post_bytes p n b))"
    unfolding post_bytes_def by (rule valid_request_bytes [OF wf]) (use p in \<open>simp_all add: valid_methods_def\<close>)
  have cl: "get_request_header ''Content-Length'' (parse (post_bytes p n b)) = Some (to_string_nat (length b))"
    by (simp only: get_request_header_def parsed(6) find_length_header)
  have "stoull (to_string_nat (length b)) = Inr (of_nat (length b))"
    using assms(5) by (simp add: stoull_to_string_nat)
  moreover have "unat (of_nat (length b) :: 64 word) = length b"
    using assms(5) by (simp add: unat_of_nat)
  moreover have "length (post_bytes p n b) - body_start (post_bytes p n b) = length b"
    unfolding post_bytes_def request_bytes_head(2) [OF wf]
    using length_request_bytes [of "''POST''" ?path "''HTTP/1.1''" ?hs b] by simp
  ultimately have complete: "case get_request_header ''Content-Length'' (parse (post_bytes p n b)) of
           None \<Rightarrow> True
         | Some cl \<Rightarrow> \<exists>n'. stoull cl = Inr n' \<and>
             unat n' \<le> length (post_bytes p n b) - body_start (post_bytes p n b)"
    by (simp add: cl)
  have "crud_handle_request (mock_crud p) (parse (post_bytes p n b)) (store w) =
      (Inr (reply 201 ''Created'' ''application/json'' (id_body i)),
       snd (mock_write_entity \<lparr>name = n\<rparr> i (body (parse (post_bytes p n b))) (store w)))"
    using path_without_id [OF p(3) assms(3)] assms(6) parsed(1,2) by (intro post_answer) simp_all
  from crud_read [OF assms(1) valid complete p(4) parsed(2) this _ _ assms(7), of ip]
  show ?thesis by (simp add: parsed(4))
qed

lemma read_get:
  assumes "world_ok w" "route_prefix_ok p" "segment n" "request_word n" "segment i" "request_word i"
    and "mock_view (store w) n i = Some d" "length d < 2 ^ 64"
  shows "\<exists>str. started (handle_read (crud_routes p) False (get_bytes p n i) ip make_session w) =
      [Async_write str] \<and>
    world_after (handle_read (crud_routes p) False (get_bytes p n i) ip make_session w) = w \<and>
    (\<forall>rest. \<exists>head hs. client_receive (str @ rest) = Some (head, hs, d, rest))"
proof -
  let ?path = "p @ ''/'' @ n @ ''/'' @ i"
  have p: "request_word p" "hd p = CHR ''/''" "CHR ''?'' \<notin> set p" "p \<noteq> []"
    using assms(2) by (auto simp: route_prefix_ok_def request_word_def)
  have wf: "well_formed_head ''GET'' ?path ''HTTP/1.1'' []"
    using request_word_append [OF p(1) request_word_append [OF assms(4,6)]]
    by (simp add: well_formed_head_def) (simp add: request_word_def isspace_def)
  note parsed = parse_request_bytes [OF wf refl, of "[]", folded get_bytes_def]
  have valid: "is_valid (parse (get_bytes p n i))"
    unfolding get_bytes_def by (rule valid_request_bytes [OF wf]) (use p in \<open>simp_all add: valid_methods_def\<close>)
  have complete: "case get_request_header ''Content-Length'' (parse (get_bytes p n i)) of
           None \<Rightarrow> True
         | Some cl \<Rightarrow> \<exists>n'. stoull cl = Inr n' \<and>
             unat n' \<le> length (get_bytes p n i) - body_start (get_bytes p n i)"
    by (simp add: get_request_header_def parsed(6) parsed_headers_def map_put_all_def)
  have "crud_handle_request (mock_crud p) (parse (get_bytes p n i)) (store w) =
      (Inr (reply 200 ''OK'' ''application/json'' d), store w)"
    using path_with_id [OF p(3) assms(3,5)] assms(7) parsed(1,2)
    by (intro get_answer [where e = "\<lparr>name = n\<rparr>" and i = i]) simp_all
  from crud_read [OF assms(1) valid complete p(4) parsed(2) this _ _ assms(8), of ip]
  show ?thesis by simp
qed

text \<open>
  C12: from bytes to bytes. A server whose route sends a prefix to the CRUD handler reads the bytes of a
  POST to \<open>prefix/Entity\<close>: the client receives a correctly framed response whose body names a new id.
  Whoever then sends the bytes of a GET for \<open>prefix/Entity/id\<close>, on any connection, receives the body of
  the POST, up to one trailing line feed, which the request parser drops.
\<close>

theorem stored_body_comes_back:
  assumes "world_ok w" "length (mock_list_entity_ids (store w) \<lparr>name = n\<rparr>) < nat INT_MAX"
    and "route_prefix_ok p" "segment n" "request_word n" "length b < 2 ^ 64"
  shows "\<exists>i w1 s1 s2.
    started (handle_read (crud_routes p) False (post_bytes p n b) ip make_session w) = [Async_write s1] \<and>
    world_after (handle_read (crud_routes p) False (post_bytes p n b) ip make_session w) = w1 \<and>
    (\<forall>rest. \<exists>head hs. client_receive (s1 @ rest) = Some (head, hs, id_body i, rest)) \<and>
    started (handle_read (crud_routes p) False (get_bytes p n i) ip' make_session w1) = [Async_write s2] \<and>
    (\<forall>rest. \<exists>head hs. client_receive (s2 @ rest) = Some (head, hs, chomp b, rest))"
proof -
  obtain k where k: "mock_next_entity_id (store w) \<lparr>name = n\<rparr> = Inr (to_string_int k)"
    "0 < k" "k \<le> INT_MAX"
    using mock_next_int [OF assms(2)] by metis
  let ?i = "to_string_int k"
  let ?w1 = "w\<lparr>store := snd (mock_write_entity \<lparr>name = n\<rparr> ?i (chomp b) (store w))\<rparr>"
  have "nat k \<le> 2147483647" using k(3) by (simp add: INT_MAX_def)
  then have "length (id_body ?i) < 2 ^ 64"
    using to_string_int_word(2) [OF k(2)] by (simp add: id_body_def)
  from read_post [OF assms(1,3,4,5,6) k(1) this, of ip] obtain s1 where post:
    "started (handle_read (crud_routes p) False (post_bytes p n b) ip make_session w) = [Async_write s1]"
    "world_after (handle_read (crud_routes p) False (post_bytes p n b) ip make_session w) = ?w1"
    "\<forall>rest. \<exists>head hs. client_receive (s1 @ rest) = Some (head, hs, id_body ?i, rest)"
    by blast
  have "world_ok ?w1"
    using assms(1) mock_write_view(3) [of "store w"] by (simp add: world_ok_def)
  moreover have "mock_view (store ?w1) n ?i = Some (chomp b)" by (simp add: mock_write_view)
  moreover have "length (chomp b) < 2 ^ 64" using length_chomp [of b] assms(6) by linarith
  ultimately obtain s2 where
    "started (handle_read (crud_routes p) False (get_bytes p n ?i) ip' make_session ?w1) = [Async_write s2]"
    "\<forall>rest. \<exists>head hs. client_receive (s2 @ rest) = Some (head, hs, chomp b, rest)"
    using read_get [OF _ assms(3,4,5) to_string_int_segment [OF k(2)] to_string_int_word(1) [OF k(2)]]
    by blast
  with post show ?thesis by blast
qed

theorem stored_body_comes_back_witness:
  "\<exists>i s1 s2 w1.
    started (handle_read (crud_routes ''/api'') False (post_bytes ''/api'' ''Shoes'' ''x'') None make_session
      example_world) = [Async_write s1] \<and>
    started (handle_read (crud_routes ''/api'') False (get_bytes ''/api'' ''Shoes'' i) None make_session w1) =
      [Async_write s2] \<and>
    (\<forall>rest. \<exists>head hs. client_receive (s2 @ rest) = Some (head, hs, chomp ''x'', rest))"
proof -
  have "length (mock_list_entity_ids (store example_world) \<lparr>name = ''Shoes''\<rparr>) < nat INT_MAX" by code_simp
  moreover have "route_prefix_ok ''/api''" "segment ''Shoes''" "request_word ''Shoes''" by code_simp+
  moreover have "length ''x'' < 2 ^ 64" by simp
  ultimately show ?thesis
    using stored_body_comes_back [OF world_ok_example, of "''Shoes''" "''/api''" "''x''" None None] by blast
qed

end
