(* ===== verification/Static_Site.thy ===== *)
theory Static_Site
  imports End_To_End
begin

text \<open>
  What a client sees of a static route (src/file_handler.cc behind session, router and factory): the
  files below the root as a tree that is addressed by the components of the target.
\<close>

section \<open>Files by their components\<close>

datatype node = Absent | Unreadable | Contents string

definition node_at :: "os_files \<Rightarrow> string \<Rightarrow> node" where
  "node_at os p =
     (if os_exists os p = Inr True \<and> os_is_regular_file os p = Inr True
      then (case os_read os p of None \<Rightarrow> Unreadable | Some bytes \<Rightarrow> Contents bytes)
      else Absent)"

definition in_site :: "string \<Rightarrow> string list \<Rightarrow> string" where
  "in_site r parts = slash_root r @ join_parts parts"

text \<open>The extension of a target is that of its last component; the root has none.\<close>

definition part_extension :: "string list \<Rightarrow> string" where
  "part_extension parts = (if parts = [] then [] else to_lower (path_extension (last parts)))"

text \<open>The answer for a node: missing files are not found whatever their extension.\<close>

definition site_answer :: "string set \<Rightarrow> string list \<Rightarrow> node \<Rightarrow> http_response" where
  "site_answer exts parts n =
     (case n of
        Absent \<Rightarrow> reply 404 ''Not Found'' ''text/html'' ''<h1>404 Not Found</h1>''
      | Unreadable \<Rightarrow>
          if part_extension parts \<in> exts
          then reply 500 ''Internal Server Error'' ''text/plain'' ''500 - Could not read file''
          else reply 415 ''Unsupported Media Type'' ''text/plain'' ''415 - Unsupported file type''
      | Contents bytes \<Rightarrow>
          if part_extension parts \<in> exts
          then reply 200 ''OK''
                 (case map_of mime_types (part_extension parts) of
                    None \<Rightarrow> ''application/octet-stream'' | Some t \<Rightarrow> t) bytes
          else reply 415 ''Unsupported Media Type'' ''text/plain'' ''415 - Unsupported file type'')"

lemma path_filename_below: "CHR ''/'' \<notin> set f \<Longrightarrow> path_filename (a @ CHR ''/'' # f) = f"
  by (simp add: path_filename_def takeWhile_append2)

lemma path_filename_plain: "CHR ''/'' \<notin> set f \<Longrightarrow> path_filename f = f"
  by (simp add: path_filename_def)

lemma path_extension_filename: "path_extension p = path_extension (path_filename p)"
  by (simp add: path_extension_def path_filename_def takeWhile_idem Let_def)

lemma join_parts_snoc: "join_parts (xs @ [x]) = (if xs = [] then x else join_parts xs @ ''/'' @ x)"
  by (induction xs rule: join_parts.induct) simp_all

lemma in_site_filename:
  assumes "list_all plain_part parts"
  shows "path_filename (in_site r parts) = (if parts = [] then [] else last parts)"
proof (cases parts rule: rev_cases)
  case Nil
  then show ?thesis
    using slash_root_cases [of r] path_filename_below [of "[]"] path_filename_plain [of "[]"]
    by (auto simp: in_site_def)
next
  case (snoc xs x)
  with assms have x: "CHR ''/'' \<notin> set x" by (simp add: plain_part_def)
  have "\<exists>a. in_site r parts = x \<or> in_site r parts = a @ CHR ''/'' # x"
  proof (cases "xs = []")
    case True
    with snoc have "in_site r parts = slash_root r @ x" by (simp add: in_site_def)
    then show ?thesis using slash_root_cases [of r] by auto
  next
    case False
    with snoc have "in_site r parts = (slash_root r @ join_parts xs) @ CHR ''/'' # x"
      by (simp add: in_site_def join_parts_snoc)
    then show ?thesis by blast
  qed
  with snoc show ?thesis using path_filename_below [OF x] path_filename_plain [OF x] by auto
qed

lemma in_site_extension:
  assumes "list_all plain_part parts"
  shows "to_lower (path_extension (in_site r parts)) = part_extension parts"
  using path_extension_filename [of "in_site r parts"]
  by (simp add: in_site_filename [OF assms] part_extension_def)
    (simp add: path_extension_def path_filename_def to_lower_def)

section \<open>The handler\<close>

lemma file_handler_answers:
  assumes "root h = slash_root r" "relative_path h request = join_parts parts" "list_all plain_part parts"
    and "succeeds (os_exists (files w) (in_site r parts))"
    and "succeeds (os_is_regular_file (files w) (in_site r parts))"
  shows "file_handle_request h request w =
    (Inr (site_answer (supported_extensions h) parts (node_at (files w) (in_site r parts))), w)"
proof -
  note ext = in_site_extension [OF assms(3), of r]
  from assms(4,5) obtain e f where
    "os_exists (files w) (in_site r parts) = Inr e" "os_is_regular_file (files w) (in_site r parts) = Inr f"
    by (auto simp: succeeds_iff)
  then show ?thesis
    using ext assms(1,2)
    by (simp add: file_handle_request_def in_site_def [symmetric] node_at_def site_answer_def
        is_supported_file_type_def get_mime_type_def Let_def split: option.split)
qed

text \<open>The target of a request: route, path below it, and perhaps a query.\<close>

lemma relative_path_below:
  assumes "route_prefix h \<noteq> []" "CHR ''?'' \<notin> set (route_prefix h @ t)" "query = [] \<or> hd query = CHR ''?''"
    and "path request = route_prefix h @ t @ query"
  shows "relative_path h request = join_parts (path_parts t)"
proof -
  have "(case str_find ''?'' (path request) of None \<Rightarrow> path request | Some i \<Rightarrow> take i (path request)) =
      takeWhile (\<lambda>c. c \<noteq> CHR ''?'') (path request)"
    by (rule cut_at_char)
  also have "\<dots> = route_prefix h @ t"
  proof (cases query)
    case (Cons c cs)
    with assms(2-4) show ?thesis
      using takeWhile_neq_append [of "CHR ''?''" "route_prefix h @ t" cs] by simp
  qed (use assms(2,4) takeWhile_neq_all in \<open>simp add: takeWhile_eq_all_conv\<close>)
  finally show ?thesis
    using assms(1) by (auto simp: relative_path_def Let_def sanitize_path_parts path_parts_def getlines_delim_Cons)
qed

definition static_config :: "os_files \<Rightarrow> handler_config \<Rightarrow> string \<Rightarrow> string set \<Rightarrow> bool" where
  "static_config os c r exts \<longleftrightarrow>
     handler_type c = ''StaticHandler'' \<and> map_of (settings c) ''root'' = Some r \<and>
     exts = (case map_of (settings c) ''supported_extensions'' of
               None \<Rightarrow> DEFAULT_EXTENSIONS | Some e \<Rightarrow> parse_extensions e) \<and>
     os_exists os (slash_root r) = Inr True \<and> os_is_directory os (slash_root r) = Inr True"

lemma static_config_handler:
  "static_config os c r exts \<Longrightarrow>
     create_handler os c pre =
       Inr (Some (FileHandler \<lparr>root = slash_root r, route_prefix = pre, supported_extensions = exts\<rparr>))"
  by (auto simp: static_config_def create_handler_def make_default_file_handler_def
      make_file_handler_Inr [THEN iffD2] split: option.splits)

lemma static_response:
  assumes "map_of router pre = Some c" "pre \<noteq> []"
    and "\<forall>r' \<in> dom (map_of router). prefix r' (path request) \<longrightarrow> length r' \<le> length pre"
    and "static_config (files w) c r exts"
    and "path request = pre @ t @ query" "CHR ''?'' \<notin> set (pre @ t)" "query = [] \<or> hd query = CHR ''?''"
    and "succeeds (os_exists (files w) (in_site r (path_parts t)))"
    and "succeeds (os_is_regular_file (files w) (in_site r (path_parts t)))"
  shows "response_of router request w =
    (Inr (site_answer exts (path_parts t) (node_at (files w) (in_site r (path_parts t)))), w)"
proof -
  let ?h = "\<lparr>root = slash_root r, route_prefix = pre, supported_extensions = exts\<rparr>"
  have "best_route router (path request) = pre"
    using assms(3) by (intro best_route_eq [OF assms(1)]) (auto simp: assms(5))
  then have "match_handler (files w) router (path request) = Inr (Some (FileHandler ?h))"
    using assms(1,2) static_config_handler [OF assms(4), of pre] by (simp add: match_handler_def)
  moreover have "relative_path ?h request = join_parts (path_parts t)"
    by (rule relative_path_below [where query = query]) (use assms in simp_all)
  then have "file_handle_request ?h request w =
      (Inr (site_answer exts (path_parts t) (node_at (files w) (in_site r (path_parts t)))), w)"
    using file_handler_answers [of ?h r request _ w, OF _ _ path_parts_plain] assms(8,9) by simp
  ultimately show ?thesis by (simp add: response_of_def)
qed

text \<open>
  A static route is a site. A session that reads a whole valid request, of any method, whose longest
  matching route is static, answers with the node that the components of the target name below the
  root, whatever slashes, dots or query the target has: its bytes with the MIME type of the extension
  of the last component, 404 when there is no such file, 415 when the extension is not configured, 500
  when the file cannot be opened. The client reads the answer off the connection by its
  \<open>Content-Length\<close>; the world is unchanged.
\<close>

theorem static_site_answers:
  assumes "world_ok w" "whole_request raw" "path (parse raw) = pre @ t @ query"
    and "map_of router pre = Some c" "pre \<noteq> []"
    and "\<forall>r' \<in> dom (map_of router). prefix r' (path (parse raw)) \<longrightarrow> length r' \<le> length pre"
    and "static_config (files w) c r exts"
    and "CHR ''?'' \<notin> set (pre @ t)" "query = [] \<or> hd query = CHR ''?''"
    and "succeeds (os_exists (files w) (in_site r (path_parts t)))"
    and "succeeds (os_is_regular_file (files w) (in_site r (path_parts t)))"
    and "answer = site_answer exts (path_parts t) (node_at (files w) (in_site r (path_parts t)))"
    and "length (message_body answer) < 2 ^ 64"
  shows "\<exists>sc str. status_code answer = Some sc \<and>
    started (handle_read router False raw ip make_session w) = [Async_write str] \<and>
    world_after (handle_read router False raw ip make_session w) = w \<and>
    (\<forall>rest. client_receive (str @ rest) =
       Some (status_line answer sc, headers_map answer, message_body answer, rest))"
proof -
  have run: "response_of router (parse raw) w = (Inr answer, w)"
    unfolding assms(12) by (rule static_response [OF assms(4-7,3,8-11)])
  have "sendable answer" by (rule response_of_sendable [OF assms(1) run])
  then obtain sc where ok: "response_ok answer" "status_code answer = Some sc" "clean_response answer"
    by (auto simp: sendable_def)
  obtain str where str: "convert_to_string answer = Inr str"
    "started (handle_read router False raw ip make_session w) = [Async_write str]"
    "world_after (handle_read router False raw ip make_session w) = w"
    using whole_request_served [OF assms(2,1) _ run, of make_session ip] by (auto simp: make_session_def)
  with clean_reply_framing [OF ok assms(13)] ok(2) show ?thesis by auto
qed

text \<open>An example: the file \<open>a.TXT\<close> asked for by a target with a component \<open>..\<close> and a query.\<close>

definition example_static_config :: handler_config where
  "example_static_config = \<lparr>handler_type = ''StaticHandler'', settings = [(''root'', ''/d'')]\<rparr>"

definition example_static_bytes :: string where
  "example_static_bytes = ''GET /static/../a.TXT?x=1 HTTP/1.1'' @ end_of_head"

definition example_static_world :: world where
  "example_static_world =
     \<lparr>store = mock_empty, files = one_file_os ''/d/'' ''/d/a.TXT'' ''hi'', slept = []\<rparr>"

abbreviation example_routes :: routes where
  "example_routes \<equiv> [(''/static'', example_static_config)]"

lemma example_site:
  "world_ok example_static_world" "whole_request example_static_bytes"
  "path (parse example_static_bytes) = ''/static'' @ ''/../a.TXT'' @ ''?x=1''"
  "static_config (files example_static_world) example_static_config ''/d'' DEFAULT_EXTENSIONS"
  "\<forall>r' \<in> dom (map_of example_routes). prefix r' (path (parse example_static_bytes)) \<longrightarrow>
     length r' \<le> length ''/static''"
  "succeeds (os_exists (files example_static_world) (in_site ''/d'' (path_parts ''/../a.TXT'')))"
  "succeeds (os_is_regular_file (files example_static_world) (in_site ''/d'' (path_parts ''/../a.TXT'')))"
  "site_answer DEFAULT_EXTENSIONS (path_parts ''/../a.TXT'')
     (node_at (files example_static_world) (in_site ''/d'' (path_parts ''/../a.TXT''))) =
   reply 200 ''OK'' ''text/plain'' ''hi''"
proof -
  have parts: "path_parts ''/../a.TXT'' = [''a.TXT'']" by code_simp
  have below: "in_site ''/d'' [''a.TXT''] = ''/d/a.TXT''" by code_simp
  have ext: "part_extension [''a.TXT''] = ''.txt''" by code_simp
  have mime: "map_of mime_types ''.txt'' = Some ''text/plain''" by code_simp
  show "world_ok example_static_world"
    using mock_empty_view by (simp add: world_ok_def example_static_world_def one_file_os_def os_ok_def)
  show "whole_request example_static_bytes" by code_simp
  show "path (parse example_static_bytes) = ''/static'' @ ''/../a.TXT'' @ ''?x=1''" by code_simp
  show "static_config (files example_static_world) example_static_config ''/d'' DEFAULT_EXTENSIONS"
    by (simp add: static_config_def example_static_config_def example_static_world_def one_file_os_def
        slash_root_def)
  show "\<forall>r' \<in> dom (map_of example_routes). prefix r' (path (parse example_static_bytes)) \<longrightarrow>
      length r' \<le> length ''/static''"
    by (simp split: if_splits)
  show "succeeds (os_exists (files example_static_world) (in_site ''/d'' (path_parts ''/../a.TXT'')))"
    "succeeds (os_is_regular_file (files example_static_world) (in_site ''/d'' (path_parts ''/../a.TXT'')))"
    by (simp_all add: example_static_world_def one_file_os_def)
  show "site_answer DEFAULT_EXTENSIONS (path_parts ''/../a.TXT'')
     (node_at (files example_static_world) (in_site ''/d'' (path_parts ''/../a.TXT''))) =
     reply 200 ''OK'' ''text/plain'' ''hi''"
    by (simp add: parts below ext mime site_answer_def node_at_def example_static_world_def one_file_os_def
        DEFAULT_EXTENSIONS_def)
qed

theorem static_site_answers_witness:
  "\<exists>str. started (handle_read example_routes False example_static_bytes None
      make_session example_static_world) = [Async_write str] \<and>
    (\<forall>rest. \<exists>head hs. client_receive (str @ rest) = Some (head, hs, ''hi'', rest))"
proof -
  let ?answer = "reply 200 ''OK'' ''text/plain'' ''hi''"
  note ex = example_site
  from static_site_answers [where router = example_routes and ip = None,
      OF ex(1-3) _ _ ex(5,4) _ _ ex(6,7) ex(8) [symmetric]]
  obtain str where
    "started (handle_read example_routes False example_static_bytes None make_session example_static_world) = [Async_write str]"
    "\<forall>rest. client_receive (str @ rest) =
       Some (status_line ?answer 200, headers_map ?answer, message_body ?answer, rest)"
    by auto
  then show ?thesis by auto
qed

end
