(* ===== verification/Server.thy ===== *)
theory Server
  imports Session_Spec
begin

text \<open>
  \<open>Server\<close> (src/server.cc, include/server.h): the accept loop. The port travels from an \<open>int\<close> through a
  \<open>short\<close> parameter to the \<open>unsigned short\<close> of the endpoint; conversions keep the low 16 bits. The
  sessions that wait in \<open>async_accept\<close> are the state; the environment completes an accept with
  success or failure. The acceptor itself, binding and listening belong to Boost.Asio.
\<close>

record server =
  endpoint_port :: "16 word"
  accepting :: "session list"
  connections :: "connection list"

definition start_accept :: "server \<Rightarrow> server" where
  "start_accept sv = sv\<lparr>accepting := accepting sv @ [make_session]\<rparr>"

definition make_server :: "16 word \<Rightarrow> server" where
  "make_server p = start_accept \<lparr>endpoint_port = p, accepting = [], connections = []\<rparr>"

text \<open>\<open>new_session->start()\<close> opens the connection that \<open>Session\<close> describes.\<close>

definition start_session :: "session \<Rightarrow> world \<Rightarrow> connection" where
  "start_session s w =
     \<lparr>conn_session = session_after (start s w), conn_world = world_after (start s w),
      pending = started (start s w), sent = [], crash = None\<rparr>"

definition handle_accept :: "session \<Rightarrow> bool \<Rightarrow> world \<Rightarrow> server \<Rightarrow> server" where
  "handle_accept new_session failed w sv =
     start_accept
       (if \<not> failed
        then sv\<lparr>connections := connections sv @ [start_session new_session w]\<rparr>
        else sv)"

text \<open>The environment completes the oldest pending accept.\<close>

definition accept_completes :: "bool \<times> world \<Rightarrow> server \<Rightarrow> server" where
  "accept_completes = (\<lambda>(failed, w) sv.
     (case accepting sv of
        [] \<Rightarrow> sv
      | new_session # rest \<Rightarrow> handle_accept new_session failed w (sv\<lparr>accepting := rest\<rparr>)))"

lemma accept_completes_one:
  assumes "accepting sv = [make_session]"
  shows "accept_completes (failed, w) sv =
    sv\<lparr>accepting := [make_session],
       connections := connections sv @ (if failed then [] else [open_connection w])\<rparr>"
  using assms
  by (simp add: accept_completes_def handle_accept_def start_accept_def start_session_def
      open_connection_def start_def)

lemma accepts_fold:
  "accepting sv = [make_session] \<Longrightarrow>
     accepting (fold accept_completes evs sv) = [make_session] \<and>
     endpoint_port (fold accept_completes evs sv) = endpoint_port sv \<and>
     connections (fold accept_completes evs sv) =
       connections sv @ map (\<lambda>(failed, w). open_connection w) (filter (\<lambda>(failed, w). \<not> failed) evs)"
proof (induction evs arbitrary: sv)
  case (Cons ev evs)
  obtain failed w where ev: "ev = (failed, w)" by (cases ev)
  have "accepting (accept_completes ev sv) = [make_session]"
    by (simp add: ev accept_completes_one [OF Cons.prems])
  from Cons.IH [OF this] show ?case
    by (simp add: ev accept_completes_one [OF Cons.prems])
qed simp

text \<open>
  The accept loop never stops and never accepts twice at once. After any sequence of completed
  accepts, failed ones included, exactly one accept is pending, the port is the one the server was
  made with, and every successful accept, in order, has given a fresh connection that waits for its
  first read.
\<close>

theorem accept_loop_invariant:
  "let sv = fold accept_completes evs (make_server p)
   in accepting sv = [make_session] \<and> endpoint_port sv = p \<and>
      connections sv = map (\<lambda>(failed, w). open_connection w) (filter (\<lambda>(failed, w). \<not> failed) evs) \<and>
      (\<forall>c \<in> set (connections sv). pending c = [Async_read_some] \<and> buffer (conn_session c) = [])"
proof -
  have "accepting (make_server p) = [make_session]" "endpoint_port (make_server p) = p"
    "connections (make_server p) = []"
    by (simp_all add: make_server_def start_accept_def)
  then show ?thesis
    using accepts_fold [of "make_server p" evs]
    by (auto simp: Let_def open_connection_def start_def make_session_def)
qed

theorem accept_loop_invariant_witness:
  "accepting (fold accept_completes [(True, example_world), (False, example_world)] (make_server 80)) =
     [make_session] \<and>
   connections (fold accept_completes [(True, example_world), (False, example_world)] (make_server 80)) =
     [open_connection example_world]"
  using accept_loop_invariant [of "[(True, example_world), (False, example_world)]" 80]
  by (simp add: Let_def)

section \<open>The port\<close>

text \<open>The \<open>short\<close> parameter of the constructor, and the \<open>unsigned short\<close> of \<open>tcp::endpoint\<close>.\<close>

definition short_port :: "int \<Rightarrow> int" where
  "short_port p = sint (word_of_int p :: 16 word)"

definition server_port :: "int \<Rightarrow> 16 word" where
  "server_port p = word_of_int (short_port p)"

lemma server_port_eq: "server_port p = word_of_int p"
  by (simp add: server_port_def short_port_def)

text \<open>
  Which port the server listens on. It is the configured number modulo \<open>2 ^ 16\<close>, in spite of the
  signed parameter in between, and so the configured one exactly when that is a valid port number; a
  larger one, which the configuration accepts, silently becomes another port.
\<close>

theorem server_port_wraps:
  "uint (endpoint_port (make_server (server_port p))) = p mod 65536 \<and>
   (uint (endpoint_port (make_server (server_port p))) = p \<longleftrightarrow> 0 \<le> p \<and> p < 65536)"
proof -
  have "uint (endpoint_port (make_server (server_port p))) = p mod 65536"
    by (simp add: make_server_def start_accept_def server_port_eq uint_word_of_int)
  moreover have "p mod 65536 = p \<longleftrightarrow> 0 \<le> p \<and> p < 65536"
    by (metis mod_pos_pos_trivial pos_mod_bound pos_mod_sign zero_less_numeral)
  ultimately show ?thesis by simp
qed

end
