(* ===== verification/System.thy ===== *)
theory System
  imports Server
begin

text \<open>
  The running server (src/server_main.cc, src/server.cc, src/session.cc): \<open>io_service.run()\<close> on several
  threads, the accept loop, all connections and the world they share, as a labelled transition system.
  The event loop is Boost.Asio's; what is used of it is its documented behaviour: the handler of an
  operation is called once, when the operation has completed, by some thread that is in \<open>run()\<close>; an
  exception that a handler lets through leaves \<open>run()\<close>. The thread functions of \<open>main\<close> do not catch, so
  \<open>std::terminate\<close> then ends the process: \<open>aborted\<close>. A worker takes a completion (\<open>Dispatch\<close>) and some
  time later is done with its handler (\<open>Finish\<close>), which acts on session and world at that moment;
  \<open>System_Calls\<close> and \<open>Session_Overlap\<close> look inside a handler.
\<close>

section \<open>State and steps\<close>

datatype completion =
    Read_done string
  | Read_failed
  | Write_done string
  | Write_failed string

fun operation_of :: "completion \<Rightarrow> io_op" where
  "operation_of (Read_done bytes) = Async_read_some"
| "operation_of Read_failed = Async_read_some"
| "operation_of (Write_done str) = Async_write str"
| "operation_of (Write_failed str) = Async_write str"

text \<open>A successful read has at least one byte and fits into \<open>data_\<close>.\<close>

fun completion_ok :: "completion \<Rightarrow> bool" where
  "completion_ok (Read_done bytes) \<longleftrightarrow> bytes \<noteq> [] \<and> length bytes \<le> max_length"
| "completion_ok _ \<longleftrightarrow> True"

fun run_handler :: "routes \<Rightarrow> string option \<Rightarrow> completion \<Rightarrow> session \<Rightarrow> world \<Rightarrow> handled" where
  "run_handler router ip (Read_done bytes) s w = handle_read router False bytes ip s w"
| "run_handler router ip Read_failed s w = handle_read router True [] ip s w"
| "run_handler router ip (Write_done str) s w = handle_write False s w"
| "run_handler router ip (Write_failed str) s w = handle_write True s w"

text \<open>What the client has been sent once the completion is there.\<close>

fun delivered :: "completion \<Rightarrow> string list" where
  "delivered (Write_done str) = [str]"
| "delivered _ = []"

record system =
  listener :: server
  shared :: world
  running :: "(nat \<times> completion) list"
  aborted :: "cpp_error option"

definition start_system :: "16 word \<Rightarrow> world \<Rightarrow> system" where
  "start_system p w = \<lparr>listener = make_server p, shared = w, running = [], aborted = None\<rparr>"

abbreviation conns :: "system \<Rightarrow> connection list" where
  "conns s \<equiv> connections (listener s)"

definition set_conn :: "nat \<Rightarrow> connection \<Rightarrow> system \<Rightarrow> system" where
  "set_conn i c s = s\<lparr>listener := (listener s)\<lparr>connections := (conns s)[i := c]\<rparr>\<rparr>"

lemma set_conn_simps [simp]:
  "conns (set_conn i c s) = (conns s)[i := c]"
  "accepting (listener (set_conn i c s)) = accepting (listener s)"
  "endpoint_port (listener (set_conn i c s)) = endpoint_port (listener s)"
  "shared (set_conn i c s) = shared s"
  "running (set_conn i c s) = running s"
  "aborted (set_conn i c s) = aborted s"
  by (simp_all add: set_conn_def)

text \<open>A worker takes the completion of an operation of connection \<open>i\<close>.\<close>

definition dispatch :: "nat \<Rightarrow> completion \<Rightarrow> system \<Rightarrow> system" where
  "dispatch i k s =
     (let c = conns s ! i
      in (set_conn i (c\<lparr>pending := remove1 (operation_of k) (pending c)\<rparr>) s)
           \<lparr>running := running s @ [(i, k)]\<rparr>)"

text \<open>A worker returns from the handler, or the handler throws.\<close>

definition finish :: "routes \<Rightarrow> string option \<Rightarrow> nat \<Rightarrow> completion \<Rightarrow> system \<Rightarrow> system" where
  "finish router ip i k s =
     (let c = conns s ! i; h = run_handler router ip k (conn_session c) (shared s)
      in (set_conn i (c\<lparr>conn_session := session_after h, pending := pending c @ started h,
                        sent := sent c @ delivered k, crash := raised h\<rparr>) s)
           \<lparr>shared := world_after h, running := remove1 (i, k) (running s), aborted := raised h\<rparr>)"

datatype label =
    Dispatch nat completion
  | Finish nat completion
  | Accept bool
  | Files_change os_files

inductive system_step ::
  "routes \<Rightarrow> (nat \<Rightarrow> string option) \<Rightarrow> nat \<Rightarrow> system \<Rightarrow> label \<Rightarrow> system \<Rightarrow> bool"
  for router ip threads where
  step_dispatch:
    "aborted s = None \<Longrightarrow> length (running s) < threads \<Longrightarrow> i < length (conns s) \<Longrightarrow>
     operation_of k \<in> set (pending (conns s ! i)) \<Longrightarrow> completion_ok k \<Longrightarrow>
     system_step router ip threads s (Dispatch i k) (dispatch i k s)"
| step_finish:
    "aborted s = None \<Longrightarrow> (i, k) \<in> set (running s) \<Longrightarrow>
     system_step router ip threads s (Finish i k) (finish router (ip i) i k s)"
| step_accept:
    "aborted s = None \<Longrightarrow> length (running s) < threads \<Longrightarrow>
     system_step router ip threads s (Accept failed)
       (s\<lparr>listener := accept_completes (failed, shared s) (listener s)\<rparr>)"
| step_files:
    "aborted s = None \<Longrightarrow> os_ok f \<Longrightarrow>
     system_step router ip threads s (Files_change f) (s\<lparr>shared := (shared s)\<lparr>files := f\<rparr>\<rparr>)"

inductive_cases dispatchE: "system_step router ip threads s (Dispatch i k) s'"
inductive_cases finishE: "system_step router ip threads s (Finish i k) s'"
inductive_cases acceptE: "system_step router ip threads s (Accept failed) s'"

definition some_step ::
  "routes \<Rightarrow> (nat \<Rightarrow> string option) \<Rightarrow> nat \<Rightarrow> system \<Rightarrow> system \<Rightarrow> bool" where
  "some_step router ip threads s s' \<longleftrightarrow> (\<exists>l. system_step router ip threads s l s')"

definition system_reachable ::
  "routes \<Rightarrow> (nat \<Rightarrow> string option) \<Rightarrow> nat \<Rightarrow> 16 word \<Rightarrow> world \<Rightarrow> system \<Rightarrow> bool" where
  "system_reachable router ip threads p w s \<longleftrightarrow>
     (some_step router ip threads)\<^sup>*\<^sup>* (start_system p w) s"

section \<open>One connection in the system\<close>

text \<open>
  The view that connection \<open>i\<close> has of the system: the shared world is its world, and an operation
  whose handler is being run is still pending.
\<close>

definition running_on :: "system \<Rightarrow> nat \<Rightarrow> completion list" where
  "running_on s i = map snd (filter (\<lambda>x. fst x = i) (running s))"

definition conn_of :: "system \<Rightarrow> nat \<Rightarrow> connection" where
  "conn_of s i =
     (conns s ! i)\<lparr>conn_world := shared s,
                    pending := map operation_of (running_on s i) @ pending (conns s ! i)\<rparr>"

lemma conn_of_simps [simp]:
  "conn_session (conn_of s i) = conn_session (conns s ! i)"
  "conn_world (conn_of s i) = shared s"
  "pending (conn_of s i) = map operation_of (running_on s i) @ pending (conns s ! i)"
  "sent (conn_of s i) = sent (conns s ! i)"
  "crash (conn_of s i) = crash (conns s ! i)"
  by (simp_all add: conn_of_def)

lemma running_on_set: "(i, k) \<in> set (running s) \<longleftrightarrow> k \<in> set (running_on s i)"
  by (force simp: running_on_def)

definition system_ok :: "system \<Rightarrow> bool" where
  "system_ok s \<longleftrightarrow>
     world_ok (shared s) \<and> accepting (listener s) = [make_session] \<and>
     (\<forall>i < length (conns s). conn_ok (conn_of s i)) \<and>
     (\<forall>(i, k) \<in> set (running s). i < length (conns s) \<and> completion_ok k) \<and>
     (aborted s = None \<longleftrightarrow> (\<forall>c \<in> set (conns s). crash c = None))"

lemma system_ok_conn: "system_ok s \<Longrightarrow> i < length (conns s) \<Longrightarrow> conn_ok (conn_of s i)"
  by (simp add: system_ok_def)

lemma system_ok_running:
  "system_ok s \<Longrightarrow> (i, k) \<in> set (running s) \<Longrightarrow> i < length (conns s) \<and> completion_ok k"
  by (auto simp: system_ok_def)

lemma system_ok_start: "world_ok w \<Longrightarrow> system_ok (start_system p w)"
  by (simp add: system_ok_def start_system_def make_server_def start_accept_def)

text \<open>A connection with a handler in progress has nothing else pending.\<close>

lemma map_append_single: "map f xs @ ys = [y] \<Longrightarrow> x \<in> set xs \<Longrightarrow> xs = [x] \<and> ys = []"
  by (cases xs) simp_all

lemma append_single: "xs @ ys = [y] \<Longrightarrow> z \<in> set ys \<Longrightarrow> xs = [] \<and> ys = [y]"
  by (cases xs) simp_all

lemma running_alone:
  assumes "system_ok s" "(i, k) \<in> set (running s)"
  shows "running_on s i = [k]" "pending (conns s ! i) = []" "crash (conns s ! i) = None"
proof -
  have i: "i < length (conns s)" using system_ok_running [OF assms] by simp
  have k: "k \<in> set (running_on s i)" using assms(2) by (simp add: running_on_set)
  have ok: "conn_ok (conn_of s i)" by (rule system_ok_conn [OF assms(1) i])
  from k have "operation_of k \<in> set (pending (conn_of s i))" by simp
  from conn_ok_pending [OF ok this]
  have "map operation_of (running_on s i) @ pending (conns s ! i) = [operation_of k]" by simp
  from map_append_single [OF this k]
  show "running_on s i = [k]" "pending (conns s ! i) = []" by simp_all
  show "crash (conns s ! i) = None"
    using ok k by (auto simp: conn_ok_def split: option.splits)
qed

lemma pending_alone:
  assumes "system_ok s" "i < length (conns s)" "operation \<in> set (pending (conns s ! i))"
  shows "pending (conns s ! i) = [operation]" "running_on s i = []" "crash (conns s ! i) = None"
proof -
  have ok: "conn_ok (conn_of s i)" by (rule system_ok_conn [OF assms(1,2)])
  have "operation \<in> set (pending (conn_of s i))" using assms(3) by simp
  from conn_ok_pending [OF ok this]
  have "map operation_of (running_on s i) @ pending (conns s ! i) = [operation]" by simp
  from append_single [OF this assms(3)]
  show "pending (conns s ! i) = [operation]" "running_on s i = []" by simp_all
  show "crash (conns s ! i) = None"
    using ok assms(3) by (auto simp: conn_ok_def split: option.splits)
qed

text \<open>Finishing a handler is a step of its connection.\<close>

lemma conn_step_finish:
  assumes "pending c = [operation_of k]" "crash c = None" "completion_ok k"
    and "h = run_handler router ip k (conn_session c) (conn_world c)"
  shows "conn_step router ip c
    (c\<lparr>conn_session := session_after h, conn_world := world_after h, pending := started h,
       crash := raised h, sent := sent c @ delivered k\<rparr>)"
proof (cases k)
  case (Read_done bytes)
  with assms have "conn_step router ip c
      (after Async_read_some (handle_read router False bytes ip (conn_session c) (conn_world c)) c)"
    by (intro conn_step.read_done) simp_all
  with Read_done assms show ?thesis by (simp add: after_def)
next
  case Read_failed
  with assms have "conn_step router ip c
      (after Async_read_some (handle_read router True [] ip (conn_session c) (conn_world c)) c)"
    by (intro conn_step.read_failed) simp_all
  with Read_failed assms show ?thesis by (simp add: after_def)
next
  case (Write_done str)
  with assms have "conn_step router ip c
      ((after (Async_write str) (handle_write False (conn_session c) (conn_world c)) c)
          \<lparr>sent := sent c @ [str]\<rparr>)"
    by (intro conn_step.write_done) simp_all
  with Write_done assms show ?thesis by (simp add: after_def)
next
  case (Write_failed str)
  with assms have "conn_step router ip c
      (after (Async_write str) (handle_write True (conn_session c) (conn_world c)) c)"
    by (intro conn_step.write_failed) simp_all
  with Write_failed assms show ?thesis by (simp add: after_def)
qed

section \<open>The system is a product of connections\<close>

lemma conn_of_world: "conn_of (s\<lparr>shared := w\<rparr>) i = (conn_of s i)\<lparr>conn_world := w\<rparr>"
  by (simp add: conn_of_def running_on_def)

lemma running_filter: "filter (\<lambda>x. fst x = i) (running s) = map (Pair i) (running_on s i)"
proof -
  have "filter (\<lambda>x. fst x = i) xs = map (Pair i) (map snd (filter (\<lambda>x. fst x = i) xs))"
    for xs :: "(nat \<times> completion) list"
    by (induction xs) auto
  then show ?thesis by (simp add: running_on_def)
qed

lemma running_on_dispatch:
  "running_on (dispatch i k s) j = running_on s j @ (if j = i then [k] else [])"
  by (simp add: running_on_def dispatch_def Let_def)

lemma conn_of_dispatch:
  assumes "system_ok s" "i < length (conns s)" "operation_of k \<in> set (pending (conns s ! i))"
  shows "conn_of (dispatch i k s) j = conn_of s j"
proof (cases "j = i")
  case True
  with pending_alone [OF assms] assms(2) show ?thesis
    by (simp add: conn_of_def running_on_dispatch) (simp add: dispatch_def Let_def)
next
  case False
  then show ?thesis by (simp add: conn_of_def running_on_dispatch) (simp add: dispatch_def Let_def)
qed

lemma finish_simps [simp]:
  "running (finish router a i k s) = remove1 (i, k) (running s)"
  "length (conns (finish router a i k s)) = length (conns s)"
  "accepting (listener (finish router a i k s)) = accepting (listener s)"
  by (simp_all add: finish_def Let_def)

lemma running_on_finish:
  assumes "system_ok s" "(i, k) \<in> set (running s)"
  shows "running_on (finish router a i k s) j = (if j = i then [] else running_on s j)"
proof -
  have "filter (\<lambda>x. fst x = j) (remove1 (i, k) (running s)) =
      remove1 (i, k) (filter (\<lambda>x. fst x = j) (running s))"
    by (rule filter_remove1)
  moreover have "j \<noteq> i \<Longrightarrow> remove1 (i, k) (map (Pair j) xs) = map (Pair j) xs" for xs
    by (intro remove1_idem) auto
  ultimately show ?thesis
    using running_alone(1) [OF assms]
    by (simp add: running_on_def [of "finish router a i k s"] running_filter comp_def)
qed

lemma conn_of_finish:
  assumes "system_ok s" "(i, k) \<in> set (running s)"
  shows "conn_of (finish router a i k s) i =
      (let c = conn_of s i; h = run_handler router a k (conn_session c) (conn_world c)
       in c\<lparr>conn_session := session_after h, conn_world := world_after h, pending := started h,
             crash := raised h, sent := sent c @ delivered k\<rparr>)"
    and "j \<noteq> i \<Longrightarrow> conn_of (finish router a i k s) j =
      (conn_of s j)\<lparr>conn_world := shared (finish router a i k s)\<rparr>"
proof -
  have i: "i < length (conns s)" using system_ok_running [OF assms] by simp
  show "conn_of (finish router a i k s) i =
      (let c = conn_of s i; h = run_handler router a k (conn_session c) (conn_world c)
       in c\<lparr>conn_session := session_after h, conn_world := world_after h, pending := started h,
             crash := raised h, sent := sent c @ delivered k\<rparr>)"
    using running_alone [OF assms] i
    by (simp add: conn_of_def running_on_finish [OF assms]) (simp add: finish_def Let_def)
  show "conn_of (finish router a i k s) j =
      (conn_of s j)\<lparr>conn_world := shared (finish router a i k s)\<rparr>" if "j \<noteq> i"
    using that by (simp add: conn_of_def running_on_finish [OF assms]) (simp add: finish_def Let_def)
qed

text \<open>Every step of the system is, for each connection there is, no step or one step of that connection.\<close>

lemma finish_conn_step:
  assumes "system_ok s" "(i, k) \<in> set (running s)"
  shows "conn_step router a (conn_of s i) (conn_of (finish router a i k s) i)"
  unfolding conn_of_finish(1) [OF assms] Let_def
  using running_alone [OF assms] system_ok_running [OF assms]
  by (intro conn_step_finish [OF _ _ _ refl]) simp_all

lemma world_ok_conn: "conn_ok c \<Longrightarrow> world_ok (conn_world c)"
  by (simp add: conn_ok_def)

lemma finish_world:
  assumes "system_ok s" "(i, k) \<in> set (running s)"
  shows "world_ok (shared (finish router a i k s))"
proof -
  have "conn_ok (conn_of (finish router a i k s) i)"
    using conn_ok_step [OF finish_conn_step [OF assms]] system_ok_conn [OF assms(1)]
      system_ok_running [OF assms] by blast
  from world_ok_conn [OF this] show ?thesis by simp
qed

lemma step_projects:
  assumes "system_step router ip threads s l s'" "system_ok s" "i < length (conns s)"
  shows "i < length (conns s') \<and> (conn_step router (ip i))\<^sup>*\<^sup>* (conn_of s i) (conn_of s' i)"
  using assms
proof (induction rule: system_step.induct)
  case (step_dispatch s j k)
  then show ?case using conn_of_dispatch [of s j k i] by (simp add: dispatch_def Let_def)
next
  case (step_finish s j k)
  show ?case
  proof (cases "i = j")
    case True
    then show ?thesis
      using finish_conn_step [OF step_finish(3,2), of router "ip j"] step_finish(4) by auto
  next
    case False
    have "conn_step router (ip i) (conn_of s i)
        ((conn_of s i)\<lparr>conn_world := shared (finish router (ip j) j k s)\<rparr>)"
      by (intro conn_step.interference finish_world step_finish)
    then show ?thesis
      using False step_finish(4) conn_of_finish(2) [OF step_finish(3,2) False] by auto
  qed
next
  case (step_accept s failed)
  have "accepting (listener s) = [make_session]" using step_accept by (simp add: system_ok_def)
  then show ?case
    using step_accept(4) by (simp add: accept_completes_one conn_of_def running_on_def nth_append)
next
  case (step_files s f)
  have "conn_step router (ip i) (conn_of s i) ((conn_of s i)\<lparr>conn_world := (shared s)\<lparr>files := f\<rparr>\<rparr>)"
    using step_files by (intro conn_step.interference) (simp add: system_ok_def world_ok_def)
  then show ?case using step_files(4) by (simp add: conn_of_world r_into_rtranclp)
qed

lemma ball_list_update:
  assumes "i < length xs" "\<forall>x \<in> set xs. P x"
  shows "(\<forall>x \<in> set (xs[i := y]). P x) \<longleftrightarrow> P y"
proof
  assume "\<forall>x \<in> set (xs[i := y]). P x"
  then show "P y" using set_update_memI [OF assms(1), of y] by blast
next
  assume "P y"
  then show "\<forall>x \<in> set (xs[i := y]). P x"
    using assms(2) set_update_subset_insert [of xs i y] by blast
qed

lemma conn_ok_steps: "(conn_step router a)\<^sup>*\<^sup>* c c' \<Longrightarrow> conn_ok c \<Longrightarrow> conn_ok c'"
  by (induction rule: rtranclp_induct) (auto intro: conn_ok_step)

text \<open>A connection that appears in a step is fresh.\<close>

lemma step_opens:
  assumes "system_step router ip threads s l s'" "system_ok s" "i < length (conns s')"
    "\<not> i < length (conns s)"
  shows "conn_of s' i = open_connection (shared s)"
  using assms
proof (induction rule: system_step.induct)
  case (step_accept s failed)
  have a: "accepting (listener s) = [make_session]" using step_accept by (simp add: system_ok_def)
  have "running_on s i = []"
  proof (rule ccontr)
    assume "running_on s i \<noteq> []"
    then obtain k where "k \<in> set (running_on s i)" by (cases "running_on s i") auto
    then show False
      using step_accept(3,5) by (auto simp: running_on_set [symmetric] dest: system_ok_running)
  qed
  then show ?case
    using step_accept(4,5)
    by (auto simp: accept_completes_one [OF a] conn_of_def running_on_def nth_append
        open_connection_def split: if_splits)
qed (simp_all add: dispatch_def Let_def)

lemma step_conn_ok:
  assumes "system_step router ip threads s l s'" "system_ok s" "i < length (conns s')"
  shows "conn_ok (conn_of s' i)"
proof (cases "i < length (conns s)")
  case True
  from step_projects [OF assms(1,2) True] system_ok_conn [OF assms(2) True]
  show ?thesis by (blast intro: conn_ok_steps)
next
  case False
  with assms step_opens [OF assms] show ?thesis
    by (simp add: conn_ok_open system_ok_def)
qed

lemma system_ok_step:
  assumes "system_step router ip threads s l s'" "system_ok s"
  shows "system_ok s'"
proof -
  have "\<forall>i < length (conns s'). conn_ok (conn_of s' i)"
    using step_conn_ok [OF assms] by blast
  moreover have "world_ok (shared s') \<and> accepting (listener s') = [make_session] \<and>
     (\<forall>(i, k) \<in> set (running s'). i < length (conns s') \<and> completion_ok k) \<and>
     (aborted s' = None \<longleftrightarrow> (\<forall>c \<in> set (conns s'). crash c = None))"
    using assms
  proof (induction rule: system_step.induct)
    case (step_dispatch s i k)
    have "\<forall>c \<in> set (conns s). crash c = None" using step_dispatch by (simp add: system_ok_def)
    with step_dispatch show ?case
      by (auto simp: system_ok_def dispatch_def Let_def ball_list_update)
  next
    case (step_finish s i k)
    have i: "i < length (conns s)" using system_ok_running [OF step_finish(3,2)] by simp
    have calm: "\<forall>c \<in> set (conns s). crash c = None" using step_finish by (simp add: system_ok_def)
    have "aborted (finish router (ip i) i k s) = None \<longleftrightarrow>
        (\<forall>c \<in> set (conns (finish router (ip i) i k s)). crash c = None)"
      using i calm by (simp add: finish_def Let_def ball_list_update)
    moreover have "\<forall>(j, k') \<in> set (remove1 (i, k) (running s)). j < length (conns s) \<and> completion_ok k'"
      using step_finish(3) by (auto simp: system_ok_def dest: set_remove1_subset [THEN subsetD])
    ultimately show ?case
      using finish_world [OF step_finish(3,2)] step_finish(3) by (simp add: system_ok_def)
  next
    case (step_accept s failed)
    have a: "accepting (listener s) = [make_session]" using step_accept by (simp add: system_ok_def)
    from step_accept show ?case
      by (auto simp: accept_completes_one [OF a] system_ok_def open_connection_def)
  next
    case (step_files s f)
    then show ?case by (simp add: system_ok_def world_ok_def)
  qed
  ultimately show ?thesis by (simp add: system_ok_def)
qed

end
