(* ===== verification/System_Live.thy ===== *)
theory System_Live
  imports System_Spec Request_Boundaries
begin

text \<open>
  Progress of the running server: without new input it settles after a bounded number of steps, and a
  request on an idle connection is answered as soon as one worker is free, whatever the others do.
\<close>

section \<open>Settling\<close>

text \<open>Steps that need no new bytes, no new client and no change of files.\<close>

fun internal :: "label \<Rightarrow> bool" where
  "internal (Finish i k) \<longleftrightarrow> True"
| "internal (Dispatch i k) \<longleftrightarrow> operation_of k \<noteq> Async_read_some"
| "internal _ \<longleftrightarrow> False"

definition internal_step ::
  "routes \<Rightarrow> (nat \<Rightarrow> string option) \<Rightarrow> nat \<Rightarrow> system \<Rightarrow> system \<Rightarrow> bool" where
  "internal_step router ip threads s s' \<longleftrightarrow>
     (\<exists>l. internal l \<and> system_step router ip threads s l s')"

text \<open>How many internal steps an operation, or a handler in progress, can still lead to.\<close>

fun op_work :: "io_op \<Rightarrow> nat" where
  "op_work Async_read_some = 0"
| "op_work (Async_write str) = 2"

fun run_work :: "completion \<Rightarrow> nat" where
  "run_work (Write_done str) = 1"
| "run_work (Write_failed str) = 1"
| "run_work _ = 3"

definition work_on :: "system \<Rightarrow> nat \<Rightarrow> nat" where
  "work_on s i =
     sum_list (map op_work (pending (conns s ! i))) + sum_list (map run_work (running_on s i))"

definition work :: "system \<Rightarrow> nat" where
  "work s = (\<Sum>i < length (conns s). work_on s i)"

lemma handler_work:
  assumes "world_ok w"
  shows "sum_list (map op_work (started (run_handler router a k s w))) < run_work k"
proof (cases k)
  case (Read_done bytes)
  have ok: "handled_ok (handle_read router False bytes a s w)" by (rule handled_ok_read [OF assms])
  then have "started (handle_read router False bytes a s w) \<in> {[], [Async_read_some]} \<or>
      (\<exists>str. started (handle_read router False bytes a s w) = [Async_write str])"
    by (auto simp: handled_ok_def split: option.splits)
  with Read_done show ?thesis by auto
qed (simp_all add: handle_read_def handle_write_def)

lemma work_on_dispatch:
  assumes "system_ok s" "i < length (conns s)" "operation_of k \<in> set (pending (conns s ! i))"
    "operation_of k \<noteq> Async_read_some"
  shows "work_on (dispatch i k s) i < work_on s i"
    and "j \<noteq> i \<Longrightarrow> work_on (dispatch i k s) j = work_on s j"
proof -
  have "run_work k < op_work (operation_of k)" using assms(4) by (cases k) simp_all
  then show "work_on (dispatch i k s) i < work_on s i"
    using pending_alone [OF assms(1-3)] assms(2)
    by (simp add: work_on_def running_on_dispatch) (simp add: dispatch_def Let_def)
  show "j \<noteq> i \<Longrightarrow> work_on (dispatch i k s) j = work_on s j"
    by (simp add: work_on_def running_on_dispatch) (simp add: dispatch_def Let_def)
qed

lemma work_on_finish:
  assumes "system_ok s" "(i, k) \<in> set (running s)"
  shows "work_on (finish router a i k s) i < work_on s i"
    and "j \<noteq> i \<Longrightarrow> work_on (finish router a i k s) j = work_on s j"
proof -
  have "i < length (conns s)" "world_ok (shared s)"
    using system_ok_running [OF assms] assms(1) by (simp_all add: system_ok_def)
  then show "work_on (finish router a i k s) i < work_on s i"
    using running_alone [OF assms] handler_work [of "shared s" router a k "conn_session (conns s ! i)"]
    by (simp add: work_on_def running_on_finish [OF assms]) (simp add: finish_def Let_def)
  show "j \<noteq> i \<Longrightarrow> work_on (finish router a i k s) j = work_on s j"
    by (simp add: work_on_def running_on_finish [OF assms]) (simp add: finish_def Let_def)
qed

lemma work_decreases_at:
  assumes "length (conns t) = length (conns s)" "i < length (conns s)"
    "work_on t i < work_on s i" "\<And>j. j \<noteq> i \<Longrightarrow> work_on t j = work_on s j"
  shows "work t < work s"
  unfolding work_def assms(1)
proof (rule sum_strict_mono_ex1)
  show "\<forall>j \<in> {..<length (conns s)}. work_on t j \<le> work_on s j"
    using assms(3,4) by (metis less_imp_le order_refl)
  show "\<exists>j \<in> {..<length (conns s)}. work_on t j < work_on s j"
    using assms(2,3) by blast
qed simp

lemma internal_step_work:
  assumes "internal_step router ip threads s s'" "system_ok s"
  shows "work s' < work s \<and> length (conns s') = length (conns s)"
proof -
  obtain l where l: "internal l" "system_step router ip threads s l s'"
    using assms(1) by (auto simp: internal_step_def)
  from l(2) show ?thesis
  proof (cases rule: system_step.cases)
    case (step_dispatch i k)
    then have k: "operation_of k \<noteq> Async_read_some" using l(1) by simp
    have len: "length (conns (dispatch i k s)) = length (conns s)" by (simp add: dispatch_def Let_def)
    note w = work_on_dispatch [OF assms(2) step_dispatch(5,6) k]
    from step_dispatch work_decreases_at [OF len step_dispatch(5) w] len show ?thesis by simp
  next
    case (step_finish i k)
    have i: "i < length (conns s)" using system_ok_running [OF assms(2) step_finish(4)] by simp
    have len: "length (conns (finish router (ip i) i k s)) = length (conns s)" by simp
    note w = work_on_finish [OF assms(2) step_finish(4), where router = router and a = "ip i"]
    from step_finish work_decreases_at [OF len i w] len show ?thesis by simp
  qed (use l(1) in simp_all)
qed

lemma work_bound:
  assumes "system_ok s"
  shows "work s \<le> 3 * length (conns s)"
proof -
  have "work_on s i \<le> 3" if i: "i < length (conns s)" for i
  proof (cases "running_on s i")
    case Nil
    have "length (pending (conns s ! i)) \<le> 1"
      using system_ok_conn [OF assms i] Nil by (auto simp: conn_ok_def split: option.splits)
    then have "sum_list (map op_work (pending (conns s ! i))) \<le> 2"
      by (cases "pending (conns s ! i)" rule: list.exhaust) (auto, metis op_work.elims order_refl zero_le)
    with Nil show ?thesis by (simp add: work_on_def)
  next
    case (Cons k ks)
    then have "(i, k) \<in> set (running s)" by (simp add: running_on_set)
    from running_alone [OF assms this] show ?thesis by (cases k) (simp_all add: work_on_def)
  qed
  then have "work s \<le> (\<Sum>i < length (conns s). 3)" unfolding work_def by (intro sum_mono) simp
  then show ?thesis by simp
qed

lemma internal_run:
  assumes "(internal_step router ip threads ^^ n) s s'" "system_ok s"
  shows "system_ok s' \<and> work s' + n \<le> work s \<and> length (conns s') = length (conns s)"
  using assms(1)
proof (induction n arbitrary: s')
  case (Suc n)
  then obtain t where t: "(internal_step router ip threads ^^ n) s t" "internal_step router ip threads t s'"
    by auto
  from Suc.IH [OF t(1)] have ok: "system_ok t" "work t + n \<le> work s"
    "length (conns t) = length (conns s)" by simp_all
  from t(2) have "system_ok s'"
    by (auto simp: internal_step_def intro: system_ok_step [OF _ ok(1)])
  with internal_step_work [OF t(2) ok(1)] ok show ?case by simp
qed (use assms(2) in simp)

lemma no_internal_step:
  assumes "system_ok s" "0 < threads" "\<And>s'. \<not> internal_step router ip threads s s'" "aborted s = None"
  shows "running s = [] \<and> (\<forall>c \<in> set (conns s). pending c = [] \<or> pending c = [Async_read_some])"
proof
  show r: "running s = []"
  proof (rule ccontr)
    assume "running s \<noteq> []"
    then obtain i k where "(i, k) \<in> set (running s)" by (cases "running s") auto
    from step_finish [OF assms(4) this, of router ip threads] assms(3) show False
      by (auto simp: internal_step_def intro: exI [of _ "Finish i k"])
  qed
  show "\<forall>c \<in> set (conns s). pending c = [] \<or> pending c = [Async_read_some]"
  proof
    fix c
    assume "c \<in> set (conns s)"
    then obtain i where i: "i < length (conns s)" "conns s ! i = c" by (auto simp: in_set_conv_nth)
    show "pending c = [] \<or> pending c = [Async_read_some]"
    proof (rule ccontr)
      assume no: "\<not> (pending c = [] \<or> pending c = [Async_read_some])"
      then obtain operation where o: "operation \<in> set (pending c)" by (cases "pending c") auto
      from pending_alone [OF assms(1) i(1), of operation] i o have "pending c = [operation]" by simp
      with no obtain str where str: "pending c = [Async_write str]" by (cases operation) auto
      have "system_step router ip threads s (Dispatch i (Write_done str)) (dispatch i (Write_done str) s)"
        using assms(2,4) i r str by (intro step_dispatch) simp_all
      with assms(3) show False
        by (auto simp: internal_step_def intro: exI [of _ "Dispatch i (Write_done str)"])
    qed
  qed
qed

text \<open>
  C25: the server settles. When no bytes and no clients arrive, at most three more steps per connection
  are possible, in whatever order the workers take them. When none is left, either an exception has
  ended the process, or no handler is in progress and no response is pending: every connection waits
  for bytes or is closed, so nothing that was received is left unanswered.
\<close>

theorem server_settles:
  assumes "world_ok w" "system_reachable router ip threads p w s" "0 < threads"
    and "(internal_step router ip threads ^^ n) s s'"
  shows "n \<le> 3 * length (conns s) \<and>
    ((\<forall>t. \<not> internal_step router ip threads s' t) \<longrightarrow> aborted s' = None \<longrightarrow>
       running s' = [] \<and> (\<forall>c \<in> set (conns s'). pending c = [] \<or> pending c = [Async_read_some]))"
proof -
  have ok: "system_ok s" by (rule system_ok_reachable [OF assms(1,2)])
  from internal_run [OF assms(4) ok] have run: "system_ok s'" "work s' + n \<le> work s" by simp_all
  from run(2) work_bound [OF ok] have "n \<le> 3 * length (conns s)" by simp
  with no_internal_step [OF run(1) assms(3)] show ?thesis by blast
qed

theorem server_settles_witness:
  "\<exists>s'. (internal_step [] (\<lambda>_. None) 4 ^^ 1)
       (dispatch 0 (Read_done ''x'') (accepted 80 example_world)) s' \<and>
     1 \<le> 3 * length (conns (dispatch 0 (Read_done ''x'') (accepted 80 example_world)))"
proof -
  let ?k = "Read_done ''x''"
  let ?s = "dispatch 0 ?k (accepted 80 example_world)"
  have "system_step [] (\<lambda>_. None) 4 ?s (Finish 0 ?k) (finish [] None 0 ?k ?s)"
    using step_finish [of ?s 0 ?k "[]" "\<lambda>_. None" 4] by (simp add: dispatch_def Let_def)
  then have one: "(internal_step [] (\<lambda>_. None) 4 ^^ 1) ?s (finish [] None 0 ?k ?s)"
    unfolding relpowp_1 by (auto simp: internal_step_def intro: exI [of _ "Finish 0 ?k"])
  have r: "system_reachable [] (\<lambda>_. None) 4 80 example_world ?s"
    by (rule first_read_reachable) (simp_all add: max_length_def)
  have "1 \<le> 3 * length (conns ?s)"
    by (rule server_settles [OF world_ok_example r _ one, THEN conjunct1]) simp
  with one show ?thesis by (intro exI conjI)
qed

section \<open>Answering\<close>

text \<open>A connection that waits for the next request.\<close>

definition idle :: "connection \<Rightarrow> bool" where
  "idle c \<longleftrightarrow> pending c = [Async_read_some] \<and> buffer (conn_session c) = []"

definition four_steps ::
  "routes \<Rightarrow> (nat \<Rightarrow> string option) \<Rightarrow> nat \<Rightarrow> nat \<Rightarrow> string \<Rightarrow> string \<Rightarrow> system \<Rightarrow> system \<Rightarrow> bool" where
  "four_steps router ip threads i raw str s t \<longleftrightarrow>
     (\<exists>s1 s2 s3.
        system_step router ip threads s (Dispatch i (Read_done raw)) s1 \<and>
        system_step router ip threads s1 (Finish i (Read_done raw)) s2 \<and>
        system_step router ip threads s2 (Dispatch i (Write_done str)) s3 \<and>
        system_step router ip threads s3 (Finish i (Write_done str)) t)"

text \<open>A worker that takes one completion and runs its handler to the end.\<close>

definition turn :: "routes \<Rightarrow> string option \<Rightarrow> nat \<Rightarrow> completion \<Rightarrow> system \<Rightarrow> system" where
  "turn router a i k s = finish router a i k (dispatch i k s)"

lemma turn_eq:
  assumes "system_ok s" "i < length (conns s)" "pending (conns s ! i) = [operation_of k]"
  shows "turn router a i k s =
    (let c = conns s ! i; h = run_handler router a k (conn_session c) (shared s)
     in (set_conn i (c\<lparr>conn_session := session_after h, pending := started h,
                       sent := sent c @ delivered k, crash := raised h\<rparr>) s)
          \<lparr>shared := world_after h, aborted := raised h\<rparr>)"
proof -
  have "running_on s i = []" using pending_alone(2) [OF assms(1,2)] assms(3) by simp
  then have "(i, k) \<notin> set (running s)" by (simp add: running_on_set)
  then have "remove1 (i, k) (running s @ [(i, k)]) = running s" by (simp add: remove1_append)
  with assms(2,3) show ?thesis
    by (simp add: turn_def finish_def dispatch_def Let_def set_conn_def)
qed

lemma turn_steps:
  assumes "i < length (conns s)" "pending (conns s ! i) = [operation_of k]" "aborted s = None"
    "length (running s) < threads" "completion_ok k"
  shows "system_step router ip threads s (Dispatch i k) (dispatch i k s)"
    and "system_step router ip threads (dispatch i k s) (Finish i k) (turn router (ip i) i k s)"
  unfolding turn_def using assms
  by (intro step_dispatch step_finish; simp add: dispatch_def Let_def)+

lemma answering:
  assumes "system_ok s" "aborted s = None"
    and "length (running s) < threads" "i < length (conns s)" "idle (conns s ! i)"
    and "whole_request raw"
    and "response_of router (parse raw) (shared s) = (Inr r, w')"
  shows "\<exists>str t. convert_to_string r = Inr str \<and> four_steps router ip threads i raw str s t \<and>
    sent (conns t ! i) = sent (conns s ! i) @ [str] \<and> idle (conns t ! i) \<and> shared t = w' \<and>
    aborted t = None \<and> running t = running s \<and> length (conns t) = length (conns s) \<and>
    (\<forall>j. j \<noteq> i \<longrightarrow> conns t ! j = conns s ! j)"
proof -
  note ok = assms(1)
  then have w: "world_ok (shared s)" by (simp add: system_ok_def)
  have idle: "pending (conns s ! i) = [operation_of (Read_done raw)]" "buffer (conn_session (conns s ! i)) = []"
    using assms(5) by (simp_all add: idle_def)
  obtain str where str: "convert_to_string r = Inr str"
    and read: "session_after (handle_read router False raw (ip i) (conn_session (conns s ! i)) (shared s)) = \<lparr>buffer = []\<rparr>"
      "world_after (handle_read router False raw (ip i) (conn_session (conns s ! i)) (shared s)) = w'"
      "started (handle_read router False raw (ip i) (conn_session (conns s ! i)) (shared s)) = [Async_write str]"
      "raised (handle_read router False raw (ip i) (conn_session (conns s ! i)) (shared s)) = None"
    using whole_request_served [OF assms(6) w idle(2) assms(7)] by blast
  have raw: "completion_ok (Read_done raw)" using assms(6) by (simp add: whole_request_def)
  note steps = turn_steps [OF assms(4) idle(1) assms(2,3) raw, where router = router and ip = ip]
  let ?s2 = "turn router (ip i) i (Read_done raw) s"
  have ok2: "system_ok ?s2"
    by (rule system_ok_step [OF steps(2) system_ok_step [OF steps(1) ok]])
  have s2: "conns ?s2 = (conns s)[i := (conns s ! i)\<lparr>conn_session := \<lparr>buffer = []\<rparr>,
      pending := [Async_write str], crash := None\<rparr>]" "running ?s2 = running s" "shared ?s2 = w'"
      "aborted ?s2 = None"
    using turn_eq [OF ok assms(4) idle(1), of router "ip i"] read
    by (simp_all add: Let_def)
  have i2: "i < length (conns ?s2)" "pending (conns ?s2 ! i) = [operation_of (Write_done str)]"
    "length (running ?s2) < threads" "completion_ok (Write_done str)"
    using assms(3,4) by (simp_all add: s2)
  note steps2 = turn_steps [OF i2(1,2) s2(4) i2(3,4), where router = router and ip = ip]
  let ?t = "turn router (ip i) i (Write_done str) ?s2"
  have t: "conns ?t = (conns s)[i := (conns s ! i)\<lparr>conn_session := \<lparr>buffer = []\<rparr>,
      pending := [Async_read_some], sent := sent (conns s ! i) @ [str], crash := None\<rparr>]"
      "running ?t = running s" "shared ?t = w'" "aborted ?t = None"
    using turn_eq [OF ok2 i2(1,2), of router "ip i"] assms(4)
    by (simp_all add: Let_def s2 handle_write_def)
  have "four_steps router ip threads i raw str s ?t"
    unfolding four_steps_def using steps steps2 by blast
  with str t assms(4) show ?thesis by (intro exI [of _ str] exI [of _ ?t]) (simp add: idle_def)
qed

text \<open>
  A conversation: the client sends each request when it has the response to the one before. The
  reference runs the requests one after the other on the world.
\<close>

fun conversation ::
  "routes \<Rightarrow> (nat \<Rightarrow> string option) \<Rightarrow> nat \<Rightarrow> nat \<Rightarrow> (string \<times> string) list \<Rightarrow> system \<Rightarrow> system \<Rightarrow> bool" where
  "conversation router ip threads i [] s t \<longleftrightarrow> t = s"
| "conversation router ip threads i ((raw, str) # later) s t \<longleftrightarrow>
     (\<exists>u. four_steps router ip threads i raw str s u \<and> conversation router ip threads i later u t)"

fun replies :: "routes \<Rightarrow> string list \<Rightarrow> world \<Rightarrow> (string list \<times> world) outcome" where
  "replies router [] w = Inr ([], w)"
| "replies router (raw # raws) w =
     (case response_of router (parse raw) w of
        (Inl e, w) \<Rightarrow> Inl e
      | (Inr r, w) \<Rightarrow>
          andThen (convert_to_string r) (\<lambda>str.
            andThen (replies router raws w) (\<lambda>(strs, w). Inr (str # strs, w))))"

lemma four_steps_ok:
  assumes "four_steps router ip threads i raw str s t" "system_ok s"
  shows "system_ok t"
proof -
  obtain s1 s2 s3 where "system_step router ip threads s (Dispatch i (Read_done raw)) s1"
    "system_step router ip threads s1 (Finish i (Read_done raw)) s2"
    "system_step router ip threads s2 (Dispatch i (Write_done str)) s3"
    "system_step router ip threads s3 (Finish i (Write_done str)) t"
    using assms(1) by (auto simp: four_steps_def)
  then show ?thesis using assms(2) by (blast intro: system_ok_step)
qed

lemma conversing:
  assumes "system_ok s" "aborted s = None"
    and "length (running s) < threads" "i < length (conns s)" "idle (conns s ! i)"
    and "list_all whole_request raws" "replies router raws (shared s) = Inr (strs, w')"
  shows "\<exists>t. conversation router ip threads i (zip raws strs) s t \<and> length strs = length raws \<and>
    sent (conns t ! i) = sent (conns s ! i) @ strs \<and> idle (conns t ! i) \<and> shared t = w' \<and>
    aborted t = None \<and> running t = running s \<and> (\<forall>j. j \<noteq> i \<longrightarrow> conns t ! j = conns s ! j)"
  using assms
proof (induction raws arbitrary: s strs)
  case Nil
  then show ?case by (intro exI [of _ s]) simp
next
  case (Cons raw raws)
  obtain r w1 str strs' where r: "response_of router (parse raw) (shared s) = (Inr r, w1)"
    "convert_to_string r = Inr str" "replies router raws w1 = Inr (strs', w')" "strs = str # strs'"
    using Cons.prems(7) by (auto simp: andThen_eq_Inr split: prod.splits sum.splits)
  have raw: "whole_request raw" "list_all whole_request raws" using Cons.prems(6) by simp_all
  from answering [OF Cons.prems(1-5) raw(1) r(1)] r(2) obtain u where
    u: "four_steps router ip threads i raw str s u" "sent (conns u ! i) = sent (conns s ! i) @ [str]"
      "idle (conns u ! i)" "shared u = w1" "aborted u = None" "running u = running s"
      "length (conns u) = length (conns s)" "\<forall>j. j \<noteq> i \<longrightarrow> conns u ! j = conns s ! j"
    by auto
  have "\<exists>t. conversation router ip threads i (zip raws strs') u t \<and> length strs' = length raws \<and>
    sent (conns t ! i) = sent (conns u ! i) @ strs' \<and> idle (conns t ! i) \<and> shared t = w' \<and>
    aborted t = None \<and> running t = running u \<and> (\<forall>j. j \<noteq> i \<longrightarrow> conns t ! j = conns u ! j)"
    using Cons.prems(3,4) u r(3) raw(2)
    by (intro Cons.IH four_steps_ok [OF u(1) Cons.prems(1)]) simp_all
  then show ?case using u r(4) by auto
qed



end
