(* ===== verification/System_Store.thy ===== *)
theory System_Store
  imports System_Live End_To_End
begin

text \<open>
  The shared store of the running server: its only writers are requests to CRUD routes, and each of them
  acts on it as one call of the API on partial maps (\<open>crud_contract\<close>) whose answer the client is sent.
  A handler acts at the moment its worker is done; \<open>System_Calls\<close> shows what changes when two of them
  overlap inside.
\<close>

lemma handle_request_store:
  "(\<And>p. h \<noteq> CrudHandler p) \<Longrightarrow> store (snd (handle_request h q w)) = store w"
  by (cases h) (auto simp: echo_handle_request_def health_handle_request_def
      not_found_handle_request_def sleep_handle_request_def file_handle_request_def Let_def)

lemma serve_world:
  "world_after (serve router q a s w) = snd (response_of router q w)"
  by (simp add: serve_def response_of_def send_response_def Let_def
      split: sum.split option.split prod.split)

lemma handle_read_serve_cases:
  "world_after (handle_read router failed bytes a s w) = w \<or>
   handle_read router failed bytes a s w =
     serve router (parse (buffer s @ bytes)) a (s\<lparr>buffer := buffer s @ bytes\<rparr>) w"
proof -
  have "world_after h = w" if "check_body q a t w = Some h" for q t h
    using that by (auto simp: check_body_def Let_def reject_eq split: option.splits sum.splits if_splits)
  then show ?thesis
    by (auto simp: handle_read_def Let_def reject_eq keep_reading_def split: option.split)
qed

text \<open>What a request to a CRUD route does, and the bytes that answer it.\<close>

definition api_step ::
  "routes \<Rightarrow> os_files \<Rightarrow> http_request \<Rightarrow> store_view \<Rightarrow> string \<Rightarrow> store_view \<Rightarrow> bool" where
  "api_step router os q v str v' \<longleftrightarrow>
     (\<exists>p r. match_handler os router (path q) = Inr (Some (CrudHandler p)) \<and>
        crud_contract (crud_call_of p q) v r v' \<and> convert_to_string r = Inr str)"

lemma serve_store:
  assumes "world_ok w"
  shows "store (world_after (serve router q a s w)) = store w \<or>
    (\<exists>str. api_step router (files w) q (mock_view (store w)) str
        (mock_view (store (world_after (serve router q a s w)))) \<and>
      started (serve router q a s w) = [Async_write str])"
proof (cases "\<exists>p. match_handler (files w) router (path q) = Inr (Some (CrudHandler p))")
  case True
  then obtain p where p: "match_handler (files w) router (path q) = Inr (Some (CrudHandler p))" by blast
  obtain r s' where run: "crud_handle_request (mock_crud p) q (store w) = (Inr r, s')"
    "crud_contract (crud_call_of p q) (mock_view (store w)) r (mock_view s')"
    using mock.crud_meets_contract [of "store w" p q] assms by (auto simp: world_ok_def)
  then have "response_of router q w = (Inr r, w\<lparr>store := s'\<rparr>)"
    by (simp add: response_of_def p crud_world_request_def)
  from serve_response [OF assms this, of a s] obtain str where
    "convert_to_string r = Inr str" "world_after (serve router q a s w) = w\<lparr>store := s'\<rparr>"
    "started (serve router q a s w) = [Async_write str]"
    by blast
  with p run(2) show ?thesis by (auto simp: api_step_def)
next
  case False
  have "store (snd (response_of router q w)) = store w"
  proof (cases "match_handler (files w) router (path q)")
    case (Inr ho)
    then show ?thesis
      using False handle_request_store by (cases ho) (simp_all add: response_of_def)
  qed (simp add: response_of_def)
  then show ?thesis by (simp add: serve_world)
qed



end
