(* ===== verification/System_Calls.thy ===== *)
theory System_Calls
  imports System_Store Crud_Anomalies
begin

text \<open>
  The running server with the calls of CRUD handlers as steps of their own. \<open>System\<close> lets a handler act at
  one moment; here a worker in \<open>Session::handle_read\<close> that has reached \<open>handler->handle_request(request)\<close>
  of a \<open>CrudHandler\<close> (src/session.cc, line 169) is in a program of \<open>Crud_Steps\<close>, and the calls of
  different workers interleave on the shared store.
\<close>

section \<open>A read handler up to and after the call\<close>

definition body_complete :: "string \<Rightarrow> bool" where
  "body_complete buf \<longleftrightarrow>
     (case get_request_header ''Content-Length'' (parse buf) of
        None \<Rightarrow> True
      | Some v \<Rightarrow>
          (case stoull v of
             Inl e \<Rightarrow> False
           | Inr content_length \<Rightarrow> unat content_length \<le> length buf - body_start buf))"

text \<open>The route prefix and the request when the read handler comes to a CRUD handler.\<close>

definition crud_request :: "routes \<Rightarrow> os_files \<Rightarrow> string \<Rightarrow> (string \<times> http_request) option" where
  "crud_request router os buf =
     (if check_malformed_request buf = NoneMalformed \<and> detect_http_request buf \<and> body_complete buf \<and>
         is_valid (parse buf)
      then (case match_handler os router (path (parse buf)) of
              Inr (Some (CrudHandler p)) \<Rightarrow> Some (p, parse buf)
            | _ \<Rightarrow> None)
      else None)"

text \<open>What \<open>handle_read\<close> does with the result of \<open>handle_request\<close>.\<close>

definition after_handler ::
  "handler \<Rightarrow> http_request \<Rightarrow> string option \<Rightarrow> session \<Rightarrow> http_response outcome \<Rightarrow> world \<Rightarrow> handled" where
  "after_handler h request ip s r w =
     (let logs = [logDebugFile (''Request for path '' @ [SQUOTE] @ path request @ [SQUOTE] @
                    '' is being handled by '' @ get_handler_name h)]
      in case r of
           Inl e \<Rightarrow>
             \<lparr>session_after = s, world_after = w, started = [], logged = logs, raised = Some e\<rparr>
         | Inr response \<Rightarrow> send_response request response (get_handler_name h) logs ip s w)"

lemma check_body_complete:
  "check_body (parse buf) ip \<lparr>buffer = buf\<rparr> w = None \<longleftrightarrow> body_complete buf"
  by (auto simp: check_body_def body_complete_def Let_def split: option.splits sum.splits)

lemma handle_read_crud:
  assumes "crud_request router (files w) (buffer s @ bytes) = Some (p, q)"
  shows "handle_read router False bytes ip s w =
    (case crud_handle_request (mock_crud p) q (store w) of
       (r, st) \<Rightarrow>
         after_handler (CrudHandler p) q ip (s\<lparr>buffer := buffer s @ bytes\<rparr>) r (w\<lparr>store := st\<rparr>))"
proof -
  let ?buf = "buffer s @ bytes"
  have s: "s\<lparr>buffer := ?buf\<rparr> = \<lparr>buffer = ?buf\<rparr>" by simp
  have c: "check_malformed_request ?buf = NoneMalformed" "detect_http_request ?buf" "is_valid (parse ?buf)"
    "check_body (parse ?buf) ip \<lparr>buffer = ?buf\<rparr> w = None"
    using assms by (simp_all add: check_body_complete crud_request_def split: if_splits)
  have m: "match_handler (files w) router (path (parse ?buf)) = Inr (Some (CrudHandler p))" "q = parse ?buf"
    using assms
    by (auto simp: crud_request_def split: if_splits sum.splits option.splits handler.splits)
  have "handle_read router False bytes ip s w = serve router q ip \<lparr>buffer = ?buf\<rparr> w"
    using c m(2) by (simp add: handle_read_def s Let_def)
  with m show ?thesis
    by (cases "crud_handle_request (mock_crud p) q (store w)")
      (simp add: serve_def crud_world_request_def after_handler_def s Let_def split: sum.split)
qed

section \<open>Steps\<close>

record server_calls =
  base :: system
  handlers :: "nat \<rightharpoonup> string \<times> http_request \<times> crud_program"

definition set_store :: "mock_filesystem \<Rightarrow> server_calls \<Rightarrow> server_calls" where
  "set_store st f = f\<lparr>base := (base f)\<lparr>shared := (shared (base f))\<lparr>store := st\<rparr>\<rparr>\<rparr>"

text \<open>The worker of connection \<open>i\<close> is done; its handler has done \<open>h\<close>.\<close>

definition finish_with :: "nat \<Rightarrow> completion \<Rightarrow> handled \<Rightarrow> system \<Rightarrow> system" where
  "finish_with i k h s =
     (let c = conns s ! i
      in (set_conn i (c\<lparr>conn_session := session_after h, pending := pending c @ started h,
                        sent := sent c @ delivered k, crash := raised h\<rparr>) s)
           \<lparr>shared := world_after h, running := remove1 (i, k) (running s), aborted := raised h\<rparr>)"

lemma finish_finish_with:
  "finish router ip i k s = finish_with i k (run_handler router ip k (conn_session (conns s ! i)) (shared s)) s"
  by (simp add: finish_def finish_with_def Let_def)

definition received :: "system \<Rightarrow> nat \<Rightarrow> string \<Rightarrow> string" where
  "received s i bytes = buffer (conn_session (conns s ! i)) @ bytes"

datatype call_label =
    Whole label
  | Begin nat
  | Call nat
  | Return nat

text \<open>A step of \<open>System\<close> that is not the end of a CRUD request, or a part of one.\<close>

fun ends_crud_request :: "routes \<Rightarrow> server_calls \<Rightarrow> label \<Rightarrow> bool" where
  "ends_crud_request router f (Finish i (Read_done bytes)) \<longleftrightarrow>
     handlers f i \<noteq> None \<or> crud_request router (files (shared (base f))) (received (base f) i bytes) \<noteq> None"
| "ends_crud_request router f _ \<longleftrightarrow> False"

inductive call_step ::
  "routes \<Rightarrow> (nat \<Rightarrow> string option) \<Rightarrow> nat \<Rightarrow> server_calls \<Rightarrow> call_label \<Rightarrow> server_calls \<Rightarrow> bool"
  for router ip threads where
  call_whole:
    "system_step router ip threads (base f) l s' \<Longrightarrow> \<not> ends_crud_request router f l \<Longrightarrow>
     call_step router ip threads f (Whole l) (f\<lparr>base := s'\<rparr>)"
| call_begin:
    "aborted (base f) = None \<Longrightarrow> (i, Read_done bytes) \<in> set (running (base f)) \<Longrightarrow> handlers f i = None \<Longrightarrow>
     crud_request router (files (shared (base f))) (received (base f) i bytes) = Some (p, q) \<Longrightarrow>
     call_step router ip threads f (Begin i)
       (f\<lparr>handlers := (handlers f)(i \<mapsto> (p, q, request_program p q))\<rparr>)"
| call_next:
    "aborted (base f) = None \<Longrightarrow> handlers f i = Some (p, q, prog) \<Longrightarrow> \<not> is_done prog \<Longrightarrow>
     next_call mock_interface prog (store (shared (base f))) = (prog', st) \<Longrightarrow>
     call_step router ip threads f (Call i)
       (set_store st (f\<lparr>handlers := (handlers f)(i \<mapsto> (p, q, prog'))\<rparr>))"
| call_return:
    "aborted (base f) = None \<Longrightarrow> handlers f i = Some (p, q, Done r) \<Longrightarrow>
     (i, Read_done bytes) \<in> set (running (base f)) \<Longrightarrow>
     h = after_handler (CrudHandler p) q (ip i)
           ((conn_session (conns (base f) ! i))\<lparr>buffer := received (base f) i bytes\<rparr>) r
           (shared (base f)) \<Longrightarrow>
     call_step router ip threads f (Return i)
       (f\<lparr>base := finish_with i (Read_done bytes) h (base f), handlers := (handlers f)(i := None)\<rparr>)"

inductive_cases call_wholeE: "call_step router ip threads f (Whole l) f'"
inductive_cases call_returnE: "call_step router ip threads f (Return i) f'"

definition some_call ::
  "routes \<Rightarrow> (nat \<Rightarrow> string option) \<Rightarrow> nat \<Rightarrow> server_calls \<Rightarrow> server_calls \<Rightarrow> bool" where
  "some_call router ip threads f f' \<longleftrightarrow> (\<exists>l. call_step router ip threads f l f')"

lemma some_callI: "call_step router ip threads f l f' \<Longrightarrow> some_call router ip threads f f'"
  by (auto simp: some_call_def)

definition outside :: "system \<Rightarrow> server_calls" where
  "outside s = \<lparr>base = s, handlers = Map.empty\<rparr>"

section \<open>Uninterrupted handlers are the steps of the system\<close>

lemma set_store_simps [simp]:
  "store (shared (base (set_store st f))) = st"
  "handlers (set_store st f) = handlers f"
  "aborted (base (set_store st f)) = aborted (base f)"
  "running (base (set_store st f)) = running (base f)"
  "conns (base (set_store st f)) = conns (base f)"
  "files (shared (base (set_store st f))) = files (shared (base f))"
  "received (base (set_store st f)) i bytes = received (base f) i bytes"
  by (simp_all add: set_store_def received_def)

lemma calls_to_the_end:
  assumes "aborted (base f) = None" "handlers f i = Some (p, q, prog)"
    and "run_alone mock_interface prog (store (shared (base f))) = (r, st)"
  shows "(some_call router ip threads)\<^sup>*\<^sup>* f
    (set_store st (f\<lparr>handlers := (handlers f)(i \<mapsto> (p, q, Done r))\<rparr>))"
  using assms
proof (induction prog arbitrary: f rule: next_call_induct [where fs = mock_interface])
  case (Done r')
  then have "(handlers f)(i \<mapsto> (p, q, Done r)) = handlers f" "store (shared (base f)) = st" by auto
  then have "set_store st (f\<lparr>handlers := (handlers f)(i \<mapsto> (p, q, Done r))\<rparr>) = f"
    by (auto simp: set_store_def)
  then show ?case by (simp only: rtranclp.rtrancl_refl)
next
  case (Next prog)
  let ?s = "store (shared (base f))"
  obtain prog' st' where call: "next_call mock_interface prog ?s = (prog', st')" by fastforce
  let ?f = "set_store st' (f\<lparr>handlers := (handlers f)(i \<mapsto> (p, q, prog'))\<rparr>)"
  have "some_call router ip threads f ?f"
    using call_next [OF Next.prems(1,2) Next.hyps call] by (auto simp: some_call_def)
  moreover have "run_alone mock_interface prog' st' = (r, st)"
    using Next.prems(3) run_alone_step [of mock_interface prog ?s] call by simp
  then have "(some_call router ip threads)\<^sup>*\<^sup>* ?f
      (set_store st (?f\<lparr>handlers := (handlers ?f)(i \<mapsto> (p, q, Done r))\<rparr>))"
    using Next.prems(1) call by (intro Next.IH [where f = ?f and s = ?s]) simp_all
  moreover have "set_store st (?f\<lparr>handlers := (handlers ?f)(i \<mapsto> (p, q, Done r))\<rparr>) =
      set_store st (f\<lparr>handlers := (handlers f)(i \<mapsto> (p, q, Done r))\<rparr>)"
    by (simp add: set_store_def)
  ultimately show ?case by (simp only: converse_rtranclp_into_rtranclp)
qed

lemma crud_request_finish:
  assumes "aborted s = None" "(i, Read_done bytes) \<in> set (running s)"
    and "crud_request router (files (shared s)) (received s i bytes) = Some (p, q)"
  shows "(some_call router ip threads)\<^sup>*\<^sup>* (outside s) (outside (finish router (ip i) i (Read_done bytes) s))"
proof -
  let ?c = "conn_session (conns s ! i)" and ?f0 = "outside s"
  let ?f1 = "?f0\<lparr>handlers := (handlers ?f0)(i \<mapsto> (p, q, request_program p q))\<rparr>"
  obtain r st where run: "crud_handle_request (mock_crud p) q (store (shared s)) = (r, st)" by fastforce
  let ?f2 = "set_store st (?f1\<lparr>handlers := (handlers ?f1)(i \<mapsto> (p, q, Done r))\<rparr>)"
  let ?h = "after_handler (CrudHandler p) q (ip i) (?c\<lparr>buffer := received s i bytes\<rparr>) r
      ((shared s)\<lparr>store := st\<rparr>)"
  let ?f3 = "?f2\<lparr>base := finish_with i (Read_done bytes) ?h (base ?f2), handlers := (handlers ?f2)(i := None)\<rparr>"
  have "some_call router ip threads ?f0 ?f1"
    using assms by (intro some_callI [OF call_begin]) (simp_all add: outside_def)
  moreover have "(some_call router ip threads)\<^sup>*\<^sup>* ?f1 ?f2"
    using assms(1) run_request_program [of mock_interface p q "store (shared s)"] run
    by (intro calls_to_the_end) (simp_all add: outside_def)
  moreover have "shared (base ?f2) = (shared s)\<lparr>store := st\<rparr>" by (simp add: set_store_def outside_def)
  then have "call_step router ip threads ?f2 (Return i) ?f3"
    using assms(1,2) by (intro call_return [where r = r]) (simp_all add: outside_def received_def set_store_def)
  then have "some_call router ip threads ?f2 ?f3" by (auto simp: some_call_def)
  moreover have "?f3 = outside (finish router (ip i) i (Read_done bytes) s)"
    using handle_read_crud [of router "shared s" ?c bytes p q "ip i"] assms(3) run
    by (simp add: finish_finish_with received_def outside_def)
      (simp add: set_store_def finish_with_def set_conn_def Let_def fun_eq_iff)
  ultimately show ?thesis by (auto intro: converse_rtranclp_into_rtranclp rtranclp.rtrancl_into_rtrancl)
qed

lemma system_step_calls:
  assumes "system_step router ip threads s l s'"
  shows "(some_call router ip threads)\<^sup>*\<^sup>* (outside s) (outside s')"
proof (cases "ends_crud_request router (outside s) l")
  case False
  have "call_step router ip threads (outside s) (Whole l) ((outside s)\<lparr>base := s'\<rparr>)"
    using assms False by (intro call_whole) (simp_all add: outside_def)
  from some_callI [OF this] show ?thesis by (simp add: outside_def r_into_rtranclp)
next
  case True
  then obtain i bytes where l: "l = Finish i (Read_done bytes)"
    by (cases "(router, outside s, l)" rule: ends_crud_request.cases) auto
  with True obtain p q where "crud_request router (files (shared s)) (received s i bytes) = Some (p, q)"
    by (auto simp: outside_def)
  moreover from assms l have "aborted s = None" "(i, Read_done bytes) \<in> set (running s)"
    "s' = finish router (ip i) i (Read_done bytes) s"
    by (auto elim: finishE)
  ultimately show ?thesis using crud_request_finish by blast
qed

lemma calls_cover:
  assumes "system_reachable router ip threads p w s"
  shows "(some_call router ip threads)\<^sup>*\<^sup>* (outside (start_system p w)) (outside s)"
  using assms unfolding system_reachable_def
  by (induction rule: rtranclp_induct)
    (auto simp: some_step_def intro: rtranclp_trans system_step_calls)



section \<open>A reader that is overtaken by a DELETE ends the process\<close>

text \<open>The calls of \<open>i\<close> go on while the store and the other handlers are as they are.\<close>

lemma one_call:
  assumes "aborted (base f) = None" "handlers f i = Some (p, q, prog)" "\<not> is_done prog"
    and "next_call mock_interface prog (store (shared (base f))) = (prog', st)"
  shows "\<exists>f'. some_call router ip threads f f' \<and> store (shared (base f')) = st \<and>
    handlers f' = (handlers f)(i \<mapsto> (p, q, prog')) \<and> aborted (base f') = None \<and>
    running (base f') = running (base f) \<and> conns (base f') = conns (base f)"
  using some_callI [OF call_next [OF assms]] assms(1)
  by (intro exI [of _ "set_store st (f\<lparr>handlers := (handlers f)(i \<mapsto> (p, q, prog'))\<rparr>)"]) simp

text \<open>Two workers that begin CRUD requests.\<close>

lemma two_begin:
  assumes "aborted (base f) = None" "i \<noteq> j" "handlers f i = None" "handlers f j = None"
    and "(i, Read_done b) \<in> set (running (base f))" "(j, Read_done b') \<in> set (running (base f))"
    and "crud_request router (files (shared (base f))) (received (base f) i b) = Some (p, q)"
    and "crud_request router (files (shared (base f))) (received (base f) j b') = Some (p', q')"
  shows "(some_call router ip threads)\<^sup>*\<^sup>* f
    (f\<lparr>handlers := (handlers f)(i \<mapsto> (p, q, request_program p q), j \<mapsto> (p', q', request_program p' q'))\<rparr>)"
proof -
  let ?f1 = "f\<lparr>handlers := (handlers f)(i \<mapsto> (p, q, request_program p q))\<rparr>"
  have "some_call router ip threads f ?f1"
    by (rule some_callI [OF call_begin [OF assms(1,5,3,7)]])
  moreover have "some_call router ip threads ?f1
      (?f1\<lparr>handlers := (handlers ?f1)(j \<mapsto> (p', q', request_program p' q'))\<rparr>)"
    using assms by (intro some_callI [OF call_begin [of _ j b']]) simp_all
  ultimately show ?thesis by (simp add: rtranclp.rtrancl_into_rtrancl r_into_rtranclp)
qed

lemma overtaken_reader:
  assumes "aborted (base f) = None" "i \<noteq> j"
    and "handlers f i = Some (p, q, get_program e x)" "handlers f j = Some (p', q', delete_program e x)"
    and "mock_view (store (shared (base f))) (name e) x \<noteq> None"
  shows "\<exists>f'. (some_call router ip threads)\<^sup>*\<^sup>* f f' \<and> aborted (base f') = None \<and>
    handlers f' i = Some (p, q,
      Done (Inl (Runtime_error (''MockFilesystem: No such entity or ID: '' @ make_name e x)))) \<and>
    running (base f') = running (base f) \<and> conns (base f') = conns (base f)"
proof -
  let ?s = "store (shared (base f))"
  have there: "mock_entity_exists ?s e x" using assms(5) by (simp add: mock_exists_view)
  let ?read = "Call_read e x (\<lambda>d. Done (andThen d (\<lambda>d. Inr (reply 200 ''OK'' ''application/json'' d))))"
  have "next_call mock_interface (get_program e x) ?s = (?read, ?s)"
    using there by (simp add: get_program_def)
  from one_call [where router = router and ip = ip and threads = threads, OF assms(1,3) _ this] obtain f1 where f1: "some_call router ip threads f f1"
    "store (shared (base f1)) = ?s" "handlers f1 = (handlers f)(i \<mapsto> (p, q, ?read))"
    "aborted (base f1) = None" "running (base f1) = running (base f)" "conns (base f1) = conns (base f)"
    by (auto simp: get_program_def)
  obtain k where k: "next_call mock_interface (delete_program e x) ?s = (Call_delete e x k, ?s)"
    using there by (simp add: delete_program_def)
  have h1: "handlers f1 j = Some (p', q', delete_program e x)" using assms(2,4) f1(3) by simp
  obtain f2 where f2: "some_call router ip threads f1 f2" "store (shared (base f2)) = ?s"
    "handlers f2 = (handlers f1)(j \<mapsto> (p', q', Call_delete e x k))"
    "aborted (base f2) = None" "running (base f2) = running (base f1)" "conns (base f2) = conns (base f1)"
    using one_call [where router = router and ip = ip and threads = threads, OF f1(4) h1, unfolded f1(2), OF _ k] by (auto simp: delete_program_def)
  obtain ok t where d: "mock_delete_entity e x ?s = (ok, t)" by fastforce
  then have gone: "mock_view t (name e) x = None" using mock_delete_view(2) [of e x ?s] by simp
  have h2: "handlers f2 j = Some (p', q', Call_delete e x k)" using f2(3) by simp
  have "next_call mock_interface (Call_delete e x k) (store (shared (base f2))) = (k ok, t)"
    using d f2(2) by simp
  from one_call [where router = router and ip = ip and threads = threads, OF f2(4) h2 _ this] obtain f3 where
    f3: "some_call router ip threads f2 f3" "store (shared (base f3)) = t"
    "handlers f3 = (handlers f2)(j \<mapsto> (p', q', k ok))"
    "aborted (base f3) = None" "running (base f3) = running (base f2)" "conns (base f3) = conns (base f2)"
    by auto
  have h3: "handlers f3 i = Some (p, q, ?read)" using assms(2) f1(3) f2(3) f3(3) by simp
  have "next_call mock_interface ?read (store (shared (base f3))) =
      (Done (Inl (Runtime_error (''MockFilesystem: No such entity or ID: '' @ make_name e x))), t)"
    using gone f3(2) by (simp add: mock_read_view)
  from one_call [where router = router and ip = ip and threads = threads, OF f3(4) h3 _ this] obtain f4 where f4: "some_call router ip threads f3 f4"
    "handlers f4 = (handlers f3)(i \<mapsto> (p, q,
      Done (Inl (Runtime_error (''MockFilesystem: No such entity or ID: '' @ make_name e x)))))"
    "aborted (base f4) = None" "running (base f4) = running (base f3)" "conns (base f4) = conns (base f3)"
    by auto
  have "(some_call router ip threads)\<^sup>*\<^sup>* f f4"
    using f1(1) f2(1) f3(1) f4(1) by (meson converse_rtranclp_into_rtranclp rtranclp.rtrancl_refl)
  with f1 f2 f3 f4 show ?thesis by (intro exI [of _ f4]) simp
qed

lemma aborted_stops: "aborted (base f) = Some x \<Longrightarrow> \<not> call_step router ip threads f l f'"
proof
  assume stopped: "aborted (base f) = Some x" and "call_step router ip threads f l f'"
  from this(2) show False
    by (cases rule: call_step.cases) (use stopped in \<open>auto elim: system_step.cases\<close>)
qed

text \<open>
  C9: two clients can end the server. When one worker is about to serve a GET and another a DELETE of the same
  stored entity, there is an order of their calls in which the GET raises: the exception leaves
  \<open>handle_read\<close> and the thread, the process ends and no connection is served any more. Alone the GET
  raises nothing.
\<close>

theorem reader_crash:
  assumes "world_ok (shared (base f))" "aborted (base f) = None" "i \<noteq> j" "handlers f i = None" "handlers f j = None"
    and "(i, Read_done b) \<in> set (running (base f))" "(j, Read_done b') \<in> set (running (base f))"
    and "crud_request router (files (shared (base f))) (received (base f) i b) = Some (p, q)"
    and "crud_request router (files (shared (base f))) (received (base f) j b') = Some (p', q')"
    and "names_entity p q ''GET'' e x" "names_entity p' q' ''DELETE'' e x"
    and "mock_view (store (shared (base f))) (name e) x \<noteq> None"
  shows "(\<exists>f'. (some_call router ip threads)\<^sup>*\<^sup>* f f' \<and>
      aborted (base f') = Some (Runtime_error (''MockFilesystem: No such entity or ID: '' @ make_name e x)) \<and>
      (\<forall>l f''. \<not> call_step router ip threads f' l f'')) \<and>
    raised (handle_read router False b (ip i) (conn_session (conns (base f) ! i)) (shared (base f))) = None"
proof
  have programs: "request_program p q = get_program e x" "request_program p' q' = delete_program e x"
    using assms(10,11) by (simp_all add: names_entity_def request_program_def)
  let ?f2 = "f\<lparr>handlers := (handlers f)(i \<mapsto> (p, q, get_program e x), j \<mapsto> (p', q', delete_program e x))\<rparr>"
  let ?err = "Runtime_error (''MockFilesystem: No such entity or ID: '' @ make_name e x)"
  have begins: "(some_call router ip threads)\<^sup>*\<^sup>* f ?f2"
    using two_begin [OF assms(2-9)] by (simp add: programs)
  obtain f3 where f3: "(some_call router ip threads)\<^sup>*\<^sup>* ?f2 f3" "aborted (base f3) = None"
    "handlers f3 i = Some (p, q, Done (Inl ?err))" "running (base f3) = running (base f)"
    "conns (base f3) = conns (base f)"
    using overtaken_reader [of ?f2 i j p q e x p' q' router ip threads] assms(2,3,12) by auto
  have last: "(i, Read_done b) \<in> set (running (base f3))" using assms(6) f3(4) by simp
  let ?h = "after_handler (CrudHandler p) q (ip i)
      ((conn_session (conns (base f3) ! i))\<lparr>buffer := received (base f3) i b\<rparr>) (Inl ?err) (shared (base f3))"
  let ?f4 = "f3\<lparr>base := finish_with i (Read_done b) ?h (base f3), handlers := (handlers f3)(i := None)\<rparr>"
  have "some_call router ip threads f3 ?f4"
    by (rule some_callI [OF call_return [OF f3(2,3) last refl]])
  then have "(some_call router ip threads)\<^sup>*\<^sup>* f ?f4"
    using begins f3(1) by (meson rtranclp_trans rtranclp.rtrancl_into_rtrancl)
  moreover have "aborted (base ?f4) = Some ?err"
    by (simp add: finish_with_def after_handler_def Let_def)
  ultimately show "\<exists>f'. (some_call router ip threads)\<^sup>*\<^sup>* f f' \<and> aborted (base f') = Some ?err \<and>
      (\<forall>l f''. \<not> call_step router ip threads f' l f'')"
    using aborted_stops by blast
next
  note w = assms(1)
  then obtain r st where run: "crud_handle_request (mock_crud p) q (store (shared (base f))) = (Inr r, st)"
    using mock.crud_meets_contract [of "store (shared (base f))" p q] by (auto simp: world_ok_def)
  then have "sendable r" using crud.sends [OF w, of p q r] by (simp add: crud_world_request_def)
  then show "raised (handle_read router False b (ip i) (conn_session (conns (base f) ! i)) (shared (base f))) = None"
    using handle_read_crud [OF assms(8) [unfolded received_def], of "ip i"] run
    by (auto simp: after_handler_def send_response_def sendable_def convert_to_string_def get_status_code_def
        Let_def split: option.splits)
qed

text \<open>The example: from the start of the server with one stored entity, two clients.\<close>

definition shoes_world :: world where
  "shoes_world = example_world\<lparr>store := shoes_store\<rparr>"

definition shoes_bytes :: "string \<Rightarrow> string" where
  "shoes_bytes m = m @ '' /api/Shoes/1 HTTP/1.1'' @ end_of_head"

definition two_clients :: "string \<Rightarrow> string \<Rightarrow> system" where
  "two_clients a b =
     (let s = accepted 80 shoes_world;
          s = s\<lparr>listener := accept_completes (False, shared s) (listener s)\<rparr>
      in dispatch 1 (Read_done b) (dispatch 0 (Read_done a) s))"

lemma two_clients_simps:
  "conns (two_clients a b) =
     [(open_connection shoes_world)\<lparr>pending := []\<rparr>, (open_connection shoes_world)\<lparr>pending := []\<rparr>]"
  "running (two_clients a b) = [(0, Read_done a), (1, Read_done b)]"
  "shared (two_clients a b) = shoes_world" "aborted (two_clients a b) = None"
  by (simp_all add: two_clients_def Let_def dispatch_def accepted_def start_system_def
      accept_completes_one open_connection_def start_def set_conn_def)

lemma two_clients_reachable:
  assumes "completion_ok (Read_done a)" "completion_ok (Read_done b)"
  shows "system_reachable router ip 4 80 shoes_world (two_clients a b)"
proof -
  let ?a = "accepted 80 shoes_world"
  let ?b = "?a\<lparr>listener := accept_completes (False, shared ?a) (listener ?a)\<rparr>"
  let ?c = "dispatch 0 (Read_done a) ?b"
  have b: "conns ?b = [open_connection shoes_world, open_connection shoes_world]" "running ?b = []"
    "aborted ?b = None" "pending (open_connection shoes_world) = [Async_read_some]"
    by (simp_all add: accepted_def start_system_def accept_completes_one open_connection_def start_def)
  have ab: "system_step router ip 4 ?a (Accept False) ?b" by (rule step_accept) simp_all
  have bc: "system_step router ip 4 ?b (Dispatch 0 (Read_done a)) ?c"
    using assms b by (intro step_dispatch) (simp_all del: completion_ok.simps)
  have cd: "system_step router ip 4 ?c (Dispatch 1 (Read_done b)) (two_clients a b)"
    unfolding two_clients_def Let_def using assms b
    by (intro step_dispatch) (simp_all add: dispatch_def Let_def del: completion_ok.simps)
  show ?thesis
    by (rule reachable_step [OF reachable_step [OF reachable_step [OF accepted_reachable ab] bc] cd]) simp
qed

text \<open>Where the two workers are: both handlers are about to begin.\<close>

lemma two_clients_outside:
  "handlers (outside (two_clients a b)) i = None"
  "aborted (base (outside (two_clients a b))) = None"
  "store (shared (base (outside (two_clients a b)))) = shoes_store"
  "(0, Read_done a) \<in> set (running (base (outside (two_clients a b))))"
  "(1, Read_done b) \<in> set (running (base (outside (two_clients a b))))"
  "received (base (outside (two_clients a b))) 0 a = a"
  "received (base (outside (two_clients a b))) 1 b = b"
  by (simp_all add: outside_def two_clients_simps received_def open_connection_def start_def make_session_def
      shoes_world_def)

lemma shoes_request_bytes:
  assumes "m = ''GET'' \<or> m = ''DELETE''"
  shows "crud_request (crud_routes ''/api'') os (shoes_bytes m) = Some (''/api'', parse (shoes_bytes m))"
    and "names_entity ''/api'' (parse (shoes_bytes m)) m \<lparr>name = ''Shoes''\<rparr> ''1''"
proof -
  have path: "path (parse (shoes_bytes m)) = ''/api'' @ ''/Shoes/1''" "method (parse (shoes_bytes m)) = m"
    using assms by (elim disjE; simp only:; code_simp)+
  have "check_malformed_request (shoes_bytes m) = NoneMalformed \<and> detect_http_request (shoes_bytes m) \<and>
      body_complete (shoes_bytes m) \<and> is_valid (parse (shoes_bytes m))"
    using assms by (elim disjE; simp only:; code_simp)
  then show "crud_request (crud_routes ''/api'') os (shoes_bytes m) = Some (''/api'', parse (shoes_bytes m))"
    using match_crud_route [of "''/api''" os "''/Shoes/1''"] by (simp add: crud_request_def path)
  show "names_entity ''/api'' (parse (shoes_bytes m)) m \<lparr>name = ''Shoes''\<rparr> ''1''"
    using shoes_names [of m] path by (simp add: names_entity_def shoes_request_def)
qed

theorem reader_crash_witness:
  "\<exists>f'. (some_call (crud_routes ''/api'') (\<lambda>_. None) 4)\<^sup>*\<^sup>* (outside (start_system 80 shoes_world)) f' \<and>
     aborted (base f') = Some (Runtime_error ''MockFilesystem: No such entity or ID: Shoes/1'') \<and>
     (\<forall>l f''. \<not> call_step (crud_routes ''/api'') (\<lambda>_. None) 4 f' l f'')"
proof -
  let ?rs = "crud_routes ''/api''" and ?ip = "\<lambda>_. None :: string option"
  let ?f = "outside (two_clients (shoes_bytes ''GET'') (shoes_bytes ''DELETE''))"
  note f = two_clients_outside [where a = "shoes_bytes ''GET''" and b = "shoes_bytes ''DELETE''"]
  have w: "world_ok (shared (base ?f))"
    using world_ok_example shoes_store_facts(1)
    by (simp add: outside_def two_clients_simps shoes_world_def world_ok_def)
  have there: "mock_view (store (shared (base ?f))) (name \<lparr>name = ''Shoes''\<rparr>) ''1'' \<noteq> None"
    using shoes_store_facts(2) by (simp add: f)
  have get: "crud_request ?rs (files (shared (base ?f))) (received (base ?f) 0 (shoes_bytes ''GET'')) =
      Some (''/api'', parse (shoes_bytes ''GET''))"
    unfolding f by (rule shoes_request_bytes(1)) simp
  have del: "crud_request ?rs (files (shared (base ?f))) (received (base ?f) 1 (shoes_bytes ''DELETE'')) =
      Some (''/api'', parse (shoes_bytes ''DELETE''))"
    unfolding f by (rule shoes_request_bytes(1)) simp
  from reader_crash [OF w f(2) _ f(1,1,4,5) get del
      shoes_request_bytes(2) [of "''GET''"] shoes_request_bytes(2) [of "''DELETE''"] there, of ?ip 4]
  obtain f' where f': "(some_call ?rs ?ip 4)\<^sup>*\<^sup>* ?f f'"
    "aborted (base f') = Some (Runtime_error ''MockFilesystem: No such entity or ID: Shoes/1'')"
    "\<forall>l f''. \<not> call_step ?rs ?ip 4 f' l f''"
    by (auto simp: make_name_def)
  have "completion_ok (Read_done (shoes_bytes ''GET''))" "completion_ok (Read_done (shoes_bytes ''DELETE''))"
    by code_simp+
  from calls_cover [OF two_clients_reachable [OF this]] f'(1)
  have "(some_call ?rs ?ip 4)\<^sup>*\<^sup>* (outside (start_system 80 shoes_world)) f'"
    by (rule rtranclp_trans)
  with f' show ?thesis by blast
qed

end
