(* ===== verification/Store_Races.thy ===== *)
theory Store_Races
  imports System_Calls Crud_Posts
begin

text \<open>
  Data races on the maps of \<open>MockFilesystem\<close> (src/mock_filesystem.cc). The worker threads share the store
  and nothing locks it, so the next calls of two handlers that are in progress may run at the same
  time. Here each method is described by the containers that it reads and changes; two calls
  race when one changes a container that the other uses, which is undefined behaviour in C++.
\<close>

section \<open>Accesses\<close>

text \<open>\<open>data_\<close> itself, and the map of one entity type in it.\<close>

datatype container = Types | Entities string

datatype access = Reads container | Changes container

fun accessed :: "access \<Rightarrow> container" where
  "accessed (Reads c) = c"
| "accessed (Changes c) = c"

fun changes :: "access \<Rightarrow> bool" where
  "changes (Changes c) \<longleftrightarrow> True"
| "changes (Reads c) \<longleftrightarrow> False"

definition conflicting :: "access \<Rightarrow> access \<Rightarrow> bool" where
  "conflicting a b \<longleftrightarrow> accessed a = accessed b \<and> (changes a \<or> changes b)"

text \<open>
  The standard counts \<open>find\<close>, \<open>end\<close>, \<open>begin\<close>, \<open>size\<close> and \<open>at\<close> as reads; \<open>operator[]\<close> of an unordered map
  is a change even when the key is there.
\<close>

definition mock_exists_accesses :: "mock_filesystem \<Rightarrow> entity \<Rightarrow> access list" where
  "mock_exists_accesses s e =
     Reads Types # (case map_of (data s) (name e) of None \<Rightarrow> [] | Some m \<Rightarrow> [Reads (Entities (name e))])"

definition mock_write_accesses :: "entity \<Rightarrow> access list" where
  "mock_write_accesses e = [Changes Types, Changes (Entities (name e))]"

definition mock_read_accesses :: "mock_filesystem \<Rightarrow> entity \<Rightarrow> string \<Rightarrow> access list" where
  "mock_read_accesses s e i =
     mock_exists_accesses s e @
     (if \<not> mock_entity_exists s e i then [] else [Reads Types, Reads (Entities (name e))])"

definition mock_delete_accesses :: "mock_filesystem \<Rightarrow> entity \<Rightarrow> string \<Rightarrow> access list" where
  "mock_delete_accesses s e i =
     Reads Types #
     (case map_of (data s) (name e) of
        None \<Rightarrow> []
      | Some m \<Rightarrow>
          Reads (Entities (name e)) # (if map_of m i = None then [] else [Changes (Entities (name e))]))"

definition mock_list_accesses :: "mock_filesystem \<Rightarrow> entity \<Rightarrow> access list" where
  "mock_list_accesses s e =
     Reads Types #
     (case map_of (data s) (name e) of
        None \<Rightarrow> [] | Some m \<Rightarrow> [Reads (Entities (name e)), Reads (Entities (name e))])"

fun call_accesses :: "mock_filesystem \<Rightarrow> crud_program \<Rightarrow> access list" where
  "call_accesses s (Done r) = []"
| "call_accesses s (Call_exists e i k) = mock_exists_accesses s e"
| "call_accesses s (Call_write e i d k) = mock_write_accesses e"
| "call_accesses s (Call_delete e i k) = mock_delete_accesses s e i"
| "call_accesses s (Call_read e i k) = mock_read_accesses s e i"
| "call_accesses s (Call_list e k) = mock_list_accesses s e"
| "call_accesses s (Call_next e k) = mock_list_accesses s e"

lemmas accesses_defs =
  mock_exists_accesses_def mock_write_accesses_def mock_read_accesses_def mock_delete_accesses_def
  mock_list_accesses_def

definition racing :: "mock_filesystem \<Rightarrow> crud_program \<Rightarrow> crud_program \<Rightarrow> bool" where
  "racing s p q \<longleftrightarrow> list_ex (\<lambda>a. list_ex (conflicting a) (call_accesses s q)) (call_accesses s p)"

text \<open>Two workers are about to make calls that race.\<close>

definition data_race :: "server_calls \<Rightarrow> nat \<Rightarrow> nat \<Rightarrow> bool" where
  "data_race f i j \<longleftrightarrow> i \<noteq> j \<and>
     (case (handlers f i, handlers f j) of
        (Some (p, q, a), Some (p', q', b)) \<Rightarrow> racing (store (shared (base f))) a b
      | _ \<Rightarrow> False)"

lemma racingI:
  "a \<in> set (call_accesses s p) \<Longrightarrow> b \<in> set (call_accesses s q) \<Longrightarrow> conflicting a b \<Longrightarrow> racing s p q"
  unfolding racing_def list_ex_iff by blast

section \<open>What a request may still call\<close>

primrec everywhere :: "(crud_program \<Rightarrow> bool) \<Rightarrow> crud_program \<Rightarrow> bool" where
  "everywhere P (Done r) \<longleftrightarrow> P (Done r)"
| "everywhere P (Call_exists e i k) \<longleftrightarrow> P (Call_exists e i k) \<and> (\<forall>b. everywhere P (k b))"
| "everywhere P (Call_write e i d k) \<longleftrightarrow> P (Call_write e i d k) \<and> (\<forall>b. everywhere P (k b))"
| "everywhere P (Call_delete e i k) \<longleftrightarrow> P (Call_delete e i k) \<and> (\<forall>b. everywhere P (k b))"
| "everywhere P (Call_read e i k) \<longleftrightarrow> P (Call_read e i k) \<and> (\<forall>d. everywhere P (k d))"
| "everywhere P (Call_list e k) \<longleftrightarrow> P (Call_list e k) \<and> (\<forall>ids. everywhere P (k ids))"
| "everywhere P (Call_next e k) \<longleftrightarrow> P (Call_next e k) \<and> (\<forall>r. everywhere P (k r))"

lemma everywhere_here: "everywhere P prog \<Longrightarrow> P prog"
  by (cases prog) simp_all

lemma everywhere_next: "everywhere P prog \<Longrightarrow> everywhere P (fst (next_call fs prog s))"
  by (cases prog) (simp_all add: case_prod_unfold Let_def)

fun allowed :: "string \<Rightarrow> http_request \<Rightarrow> crud_program \<Rightarrow> bool" where
  "allowed p q (Done r) \<longleftrightarrow> True"
| "allowed p q (Call_write e i d k) \<longleftrightarrow> name e \<in> types_of p q \<and> method q \<in> {''POST'', ''PUT''}"
| "allowed p q (Call_delete e i k) \<longleftrightarrow> name e \<in> types_of p q \<and> method q = ''DELETE''"
| "allowed p q (Call_exists e i k) \<longleftrightarrow> name e \<in> types_of p q"
| "allowed p q (Call_read e i k) \<longleftrightarrow> name e \<in> types_of p q"
| "allowed p q (Call_list e k) \<longleftrightarrow> name e \<in> types_of p q"
| "allowed p q (Call_next e k) \<longleftrightarrow> name e \<in> types_of p q"

lemma allowed_filter_program:
  "name e \<in> types_of p q \<Longrightarrow> everywhere (allowed p q) (filter_program e nf tf ids acc)"
  by (induction e nf tf ids acc rule: filter_program.induct) (auto split: sum.split)

lemma allowed_request_program: "everywhere (allowed p q) (request_program p q)"
proof (cases "parse_entity_and_id_from_path p (path q)")
  case (Some x)
  then obtain e i b where x: "parse_entity_and_id_from_path p (path q) = Some (e, i, b)" by (cases x) auto
  then have e: "name e \<in> types_of p q" by (simp add: types_of_def)
  with x show ?thesis
    by (auto simp: request_program_def post_program_def get_program_def put_program_def
        delete_program_def list_program_def allowed_filter_program split: sum.split)
qed (simp add: request_program_def)

definition calls_allowed :: "server_calls \<Rightarrow> bool" where
  "calls_allowed f \<longleftrightarrow>
     (\<forall>i p q prog. handlers f i = Some (p, q, prog) \<longrightarrow> everywhere (allowed p q) prog)"

lemma calls_allowed_step: "call_step router ip threads f l f' \<Longrightarrow> calls_allowed f \<Longrightarrow> calls_allowed f'"
proof (induction rule: call_step.induct)
  case (call_next f i p q prog prog' st)
  then have "everywhere (allowed p q) prog'"
    using everywhere_next [of "allowed p q" prog mock_interface "store (shared (base f))"]
    by (auto simp: calls_allowed_def)
  with call_next show ?case by (simp add: calls_allowed_def)
qed (auto simp: calls_allowed_def allowed_request_program)

lemma calls_allowed_reachable:
  "(some_call router ip threads)\<^sup>*\<^sup>* (outside s) f \<Longrightarrow> calls_allowed f"
  by (induction rule: rtranclp_induct)
    (auto simp: outside_def calls_allowed_def some_call_def dest: calls_allowed_step [unfolded calls_allowed_def])

section \<open>Races need a writer\<close>

text \<open>A change is made by a POST or PUT, or by a DELETE in the map of its own type.\<close>

lemma change_allowed:
  assumes "a \<in> set (call_accesses s prog)" "changes a" "allowed p q prog"
  shows "method q \<in> {''POST'', ''PUT''} \<or>
    method q = ''DELETE'' \<and> (\<exists>n \<in> types_of p q. a = Changes (Entities n))"
  using assms by (cases prog) (auto simp: accesses_defs split: option.splits if_splits)

lemma access_allowed:
  "Reads (Entities n) \<in> set (call_accesses s prog) \<or> Changes (Entities n) \<in> set (call_accesses s prog) \<Longrightarrow>
     allowed p q prog \<Longrightarrow> n \<in> types_of p q"
  by (cases prog) (auto simp: accesses_defs split: option.splits if_splits)

lemma racing_allowed:
  assumes "racing s a b" "allowed p q a" "allowed p' q' b"
  shows "method q \<in> {''POST'', ''PUT''} \<or> method q' \<in> {''POST'', ''PUT''} \<or>
    (method q = ''DELETE'' \<or> method q' = ''DELETE'') \<and> types_of p q \<inter> types_of p' q' \<noteq> {}"
proof -
  obtain x y where xy: "x \<in> set (call_accesses s a)" "y \<in> set (call_accesses s b)" "conflicting x y"
    using assms(1) by (auto simp: racing_def list_ex_iff)
  have one: "method q1 \<in> {''POST'', ''PUT''} \<or> method q1 = ''DELETE'' \<and> types_of p1 q1 \<inter> types_of p2 q2 \<noteq> {}"
    if u: "u \<in> set (call_accesses s a1)" "v \<in> set (call_accesses s a2)" "changes u" "accessed u = accessed v"
      "allowed p1 q1 a1" "allowed p2 q2 a2" for u v a1 a2 p1 q1 p2 q2
  proof (rule ccontr)
    assume no: "\<not> ?thesis"
    then obtain n where n: "n \<in> types_of p1 q1" "u = Changes (Entities n)" "method q1 = ''DELETE''"
      using change_allowed [OF u(1,3,5)] by auto
    then have "v = Reads (Entities n) \<or> v = Changes (Entities n)" using u(4) by (cases v) simp_all
    then have "n \<in> types_of p2 q2" using access_allowed [OF _ u(6)] u(2) by auto
    with n no show False by blast
  qed
  from xy(3) consider "changes x" "accessed x = accessed y" | "changes y" "accessed y = accessed x"
    by (auto simp: conflicting_def)
  then show ?thesis
  proof cases
    case 1
    from one [OF xy(1,2) this assms(2,3)] show ?thesis by blast
  next
    case 2
    from one [OF xy(2,1) this assms(3,2)] show ?thesis by blast
  qed
qed

text \<open>
  C17: only writers race. In every state that the server reaches, whatever the workers have done so far, the
  next calls of two handlers can only be a data race when one of the two requests is a POST or a
  PUT, or when one is a DELETE and both name the same entity type. So a server that is only asked GET
  never has a data race on the store.
\<close>

theorem races_need_writer:
  assumes "(some_call router ip threads)\<^sup>*\<^sup>* (outside (start_system p0 w)) f" "data_race f i j"
  shows "\<exists>p q a p' q' b. handlers f i = Some (p, q, a) \<and> handlers f j = Some (p', q', b) \<and>
    (method q \<in> {''POST'', ''PUT''} \<or> method q' \<in> {''POST'', ''PUT''} \<or>
     (method q = ''DELETE'' \<or> method q' = ''DELETE'') \<and> types_of p q \<inter> types_of p' q' \<noteq> {})"
proof -
  obtain p q a p' q' b where h: "handlers f i = Some (p, q, a)" "handlers f j = Some (p', q', b)"
    "racing (store (shared (base f))) a b"
    using assms(2) by (auto simp: data_race_def split: option.splits)
  with calls_allowed_reachable [OF assms(1)] have "everywhere (allowed p q) a" "everywhere (allowed p' q') b"
    by (simp_all add: calls_allowed_def)
  with racing_allowed [OF h(3)] h(1,2) show ?thesis by (blast dest: everywhere_here)
qed

section \<open>A POST races with every other request\<close>

lemma touches_types:
  "\<not> is_done prog \<Longrightarrow> Reads Types \<in> set (call_accesses s prog) \<or> Changes Types \<in> set (call_accesses s prog)"
  by (cases prog) (simp_all add: accesses_defs)

lemma write_races:
  assumes "\<not> is_done prog"
  shows "racing s (Call_write e i d k) prog"
proof -
  have "Changes Types \<in> set (call_accesses s (Call_write e i d k))" by (simp add: mock_write_accesses_def)
  note race = racingI [OF this]
  from touches_types [OF assms, of s] show ?thesis
    by (elim disjE) (auto simp: conflicting_def intro: race [of "Reads Types"] race [of "Changes Types"])
qed

lemma posting_races:
  assumes "aborted (base f) = None" "i \<noteq> j" "handlers f i = None" "handlers f j = None"
    and "(i, Read_done b) \<in> set (running (base f))" "(j, Read_done b') \<in> set (running (base f))"
    and "crud_request router (files (shared (base f))) (received (base f) i b) = Some (p, q)"
    and "crud_request router (files (shared (base f))) (received (base f) j b') = Some (p', q')"
    and "posts_to e (p, q)" "mock_next_entity_id (store (shared (base f))) e = Inr x"
    and "\<not> is_done (request_program p' q')"
  shows "\<exists>f'. (some_call router ip threads)\<^sup>*\<^sup>* f f' \<and> aborted (base f') = None \<and> data_race f' i j"
proof -
  let ?f2 = "f\<lparr>handlers := (handlers f)(i \<mapsto> (p, q, request_program p q), j \<mapsto> (p', q', request_program p' q'))\<rparr>"
  let ?s = "store (shared (base f))"
  have hi: "handlers ?f2 i = Some (p, q, post_program q e)"
    using assms(2) post_request_program [OF assms(9)] by simp
  have "next_call mock_interface (post_program q e) (store (shared (base ?f2))) = (storing q e x, ?s)"
    using post_choose [OF assms(10)] by simp
  from one_call [where router = router and ip = ip and threads = threads, OF _ hi _ this] assms(1)
  obtain f3 where f3: "some_call router ip threads ?f2 f3" "store (shared (base f3)) = ?s"
    "handlers f3 = (handlers ?f2)(i \<mapsto> (p, q, storing q e x))" "aborted (base f3) = None"
    by (auto simp: post_program_def)
  have "data_race f3 i j"
    using assms(2) f3(3) write_races [OF assms(11)] by (simp add: data_race_def storing_def)
  with rtranclp.rtrancl_into_rtrancl [OF two_begin [OF assms(1-8)] f3(1)] f3(4) show ?thesis by blast
qed

text \<open>
  C16: a POST races with whatever else uses the store. When one worker is about to serve a POST and another
  any request that makes a call of the store at all, for the same entity type or another, one of the
  executions has both in calls that are a data race: \<open>data_[entity.name]\<close> changes the outer map while the
  other looks into it.
\<close>

theorem post_races:
  assumes "aborted (base f) = None" "i \<noteq> j" "handlers f i = None" "handlers f j = None"
    and "(i, Read_done b) \<in> set (running (base f))" "(j, Read_done b') \<in> set (running (base f))"
    and "crud_request router (files (shared (base f))) (received (base f) i b) = Some (p, q)"
    and "crud_request router (files (shared (base f))) (received (base f) j b') = Some (p', q')"
    and "posts_to e (p, q)" "mock_next_entity_id (store (shared (base f))) e = Inr x"
    and "\<not> is_done (request_program p' q')"
  shows "\<exists>f'. (some_call router ip threads)\<^sup>*\<^sup>* f f' \<and> aborted (base f') = None \<and> data_race f' i j"
  by (rule posting_races [OF assms])

text \<open>The example: from the start of the server, a POST of a hat and a GET of a shoe.\<close>

definition hat_bytes :: string where
  "hat_bytes = ''POST /api/Hats HTTP/1.1'' @ end_of_head"

lemma hat_request_bytes:
  "crud_request (crud_routes ''/api'') os hat_bytes = Some (''/api'', parse hat_bytes)"
  "posts_to \<lparr>name = ''Hats''\<rparr> (''/api'', parse hat_bytes)"
  "mock_next_entity_id shoes_store \<lparr>name = ''Hats''\<rparr> = Inr ''1''"
  "completion_ok (Read_done hat_bytes)"
proof -
  have path: "path (parse hat_bytes) = ''/api'' @ ''/Hats''" "method (parse hat_bytes) = ''POST''" by code_simp+
  have "check_malformed_request hat_bytes = NoneMalformed \<and> detect_http_request hat_bytes \<and>
      body_complete hat_bytes \<and> is_valid (parse hat_bytes)"
    by code_simp
  then show "crud_request (crud_routes ''/api'') os hat_bytes = Some (''/api'', parse hat_bytes)"
    using match_crud_route [of "''/api''" os "''/Hats''"] by (simp add: crud_request_def path)
  have "parse_entity_and_id_from_path ''/api'' (''/api'' @ ''/Hats'') = Some (\<lparr>name = ''Hats''\<rparr>, [], False)"
    by code_simp
  then show "posts_to \<lparr>name = ''Hats''\<rparr> (''/api'', parse hat_bytes)" by (simp add: posts_to_def path)
  show "mock_next_entity_id shoes_store \<lparr>name = ''Hats''\<rparr> = Inr ''1''" by code_simp
  show "completion_ok (Read_done hat_bytes)" by code_simp
qed

lemma hat_clients:
  fixes a b defines "a \<equiv> hat_bytes" and "b \<equiv> shoes_bytes ''GET''"
  shows "crud_request (crud_routes ''/api'') (files (shared (base (outside (two_clients a b)))))
      (received (base (outside (two_clients a b))) 0 a) = Some (''/api'', parse a)"
    and "crud_request (crud_routes ''/api'') (files (shared (base (outside (two_clients a b)))))
      (received (base (outside (two_clients a b))) 1 b) = Some (''/api'', parse b)"
    and "mock_next_entity_id (store (shared (base (outside (two_clients a b))))) \<lparr>name = ''Hats''\<rparr> = Inr ''1''"
    and "\<not> is_done (request_program ''/api'' (parse b))"
    and "(some_call (crud_routes ''/api'') ip 4)\<^sup>*\<^sup>* (outside (start_system 80 shoes_world)) (outside (two_clients a b))"
proof -
  show "crud_request (crud_routes ''/api'') (files (shared (base (outside (two_clients a b)))))
      (received (base (outside (two_clients a b))) 0 a) = Some (''/api'', parse a)"
    unfolding two_clients_outside by (simp add: a_def hat_request_bytes(1))
  show "crud_request (crud_routes ''/api'') (files (shared (base (outside (two_clients a b)))))
      (received (base (outside (two_clients a b))) 1 b) = Some (''/api'', parse b)"
    unfolding two_clients_outside b_def by (rule shoes_request_bytes(1)) simp
  show "mock_next_entity_id (store (shared (base (outside (two_clients a b))))) \<lparr>name = ''Hats''\<rparr> = Inr ''1''"
    unfolding two_clients_outside by (rule hat_request_bytes(3))
  show "\<not> is_done (request_program ''/api'' (parse b))" unfolding b_def by code_simp
  have "completion_ok (Read_done b)" unfolding b_def by code_simp
  then show "(some_call (crud_routes ''/api'') ip 4)\<^sup>*\<^sup>* (outside (start_system 80 shoes_world)) (outside (two_clients a b))"
    by (intro calls_cover two_clients_reachable) (simp_all add: a_def hat_request_bytes(4) del: completion_ok.simps)
qed

lemmas hat_facts =
  two_clients_outside(2,1,1,4,5) [where a = hat_bytes and b = "shoes_bytes ''GET''"] hat_clients(1,2)
  hat_request_bytes(2) hat_clients(3,4)

theorem post_races_witness:
  "\<exists>f'. (some_call (crud_routes ''/api'') (\<lambda>_. None) 4)\<^sup>*\<^sup>* (outside (start_system 80 shoes_world)) f' \<and>
     aborted (base f') = None \<and> data_race f' 0 1"
proof -
  obtain f' where f': "(some_call (crud_routes ''/api'') (\<lambda>_. None) 4)\<^sup>*\<^sup>*
      (outside (two_clients hat_bytes (shoes_bytes ''GET''))) f'" "aborted (base f') = None" "data_race f' 0 1"
    using post_races [OF hat_facts(1) _ hat_facts(2-10), of "\<lambda>_. None" 4] by auto
  from hat_clients(5) f'(1)
  have run: "(some_call (crud_routes ''/api'') (\<lambda>_. None) 4)\<^sup>*\<^sup>* (outside (start_system 80 shoes_world)) f'"
    by (rule rtranclp_trans)
  with f' show ?thesis by blast
qed

theorem races_need_writer_witness:
  "\<exists>f p q a p' q' b. data_race f 0 1 \<and> handlers f 0 = Some (p, q, a) \<and> handlers f 1 = Some (p', q', b) \<and>
     (method q \<in> {''POST'', ''PUT''} \<or> method q' \<in> {''POST'', ''PUT''} \<or>
      (method q = ''DELETE'' \<or> method q' = ''DELETE'') \<and> types_of p q \<inter> types_of p' q' \<noteq> {})"
proof -
  obtain f' where f': "(some_call (crud_routes ''/api'') (\<lambda>_. None) 4)\<^sup>*\<^sup>*
      (outside (two_clients hat_bytes (shoes_bytes ''GET''))) f'" "aborted (base f') = None" "data_race f' 0 1"
    using posting_races [OF hat_facts(1) _ hat_facts(2-10), of "\<lambda>_. None" 4] by auto
  from hat_clients(5) f'(1)
  have run: "(some_call (crud_routes ''/api'') (\<lambda>_. None) 4)\<^sup>*\<^sup>* (outside (start_system 80 shoes_world)) f'"
    by (rule rtranclp_trans)
  from races_need_writer [OF run f'(3)] f'(3) show ?thesis by blast
qed

end
