(* ===== verification/Fair_Runs.thy ===== *)
theory Fair_Runs
  imports System_Live
begin

text \<open>
  Infinite runs of the server (src/server_main.cc, src/session.cc) in which threads are not starved: a handler
  that a worker is in comes to its end, and a write that has been started completes or fails. What
  clients do is not constrained. In every such run requests are answered. As everywhere in \<open>System\<close>, the
  operation that a handler starts completes after the handler has ended (\<open>Session_Overlap\<close> has the rest).
\<close>

section \<open>Runs\<close>

definition server_run ::
  "routes \<Rightarrow> (nat \<Rightarrow> string option) \<Rightarrow> nat \<Rightarrow> 16 word \<Rightarrow> world \<Rightarrow> (nat \<Rightarrow> system) \<Rightarrow> (nat \<Rightarrow> label) \<Rightarrow> bool" where
  "server_run router ip threads p w \<sigma> ls \<longleftrightarrow>
     \<sigma> 0 = start_system p w \<and> (\<forall>n. system_step router ip threads (\<sigma> n) (ls n) (\<sigma> (Suc n)))"

definition fair_run :: "(nat \<Rightarrow> system) \<Rightarrow> (nat \<Rightarrow> label) \<Rightarrow> bool" where
  "fair_run \<sigma> ls \<longleftrightarrow>
     (\<forall>n i k. (i, k) \<in> set (running (\<sigma> n)) \<longrightarrow> (\<exists>m \<ge> n. ls m = Finish i k)) \<and>
     (\<forall>n i str. i < length (conns (\<sigma> n)) \<and> Async_write str \<in> set (pending (conns (\<sigma> n) ! i)) \<longrightarrow>
        (\<exists>m \<ge> n. \<exists>k. operation_of k = Async_write str \<and> ls m = Dispatch i k))"

lemma run_reachable:
  "server_run router ip threads p w \<sigma> ls \<Longrightarrow> system_reachable router ip threads p w (\<sigma> n)"
  by (induction n) (auto simp: server_run_def reachable_start intro: reachable_step)

lemma run_alive: "server_run router ip threads p w \<sigma> ls \<Longrightarrow> aborted (\<sigma> n) = None"
proof -
  assume "server_run router ip threads p w \<sigma> ls"
  then have "system_step router ip threads (\<sigma> n) (ls n) (\<sigma> (Suc n))" by (simp add: server_run_def)
  then show ?thesis by (cases rule: system_step.cases) simp_all
qed

lemma run_ok: "server_run router ip threads p w \<sigma> ls \<Longrightarrow> world_ok w \<Longrightarrow> system_ok (\<sigma> n)"
  by (rule system_ok_reachable [OF _ run_reachable])

section \<open>A connection waits for its own steps\<close>

fun acts_on :: "nat \<Rightarrow> label \<Rightarrow> bool" where
  "acts_on i (Dispatch j k) \<longleftrightarrow> i = j"
| "acts_on i (Finish j k) \<longleftrightarrow> i = j"
| "acts_on i _ \<longleftrightarrow> False"

lemma step_frame:
  assumes "system_step router ip threads s l t" "system_ok s" "\<not> acts_on i l" "i < length (conns s)"
  shows "i < length (conns t) \<and> conns t ! i = conns s ! i \<and> running_on t i = running_on s i"
  using assms
proof (induction rule: system_step.induct)
  case (step_dispatch s j k)
  then show ?case by (simp add: running_on_dispatch) (simp add: dispatch_def Let_def)
next
  case (step_finish s j k)
  then show ?case by (simp add: running_on_finish) (simp add: finish_def Let_def)
next
  case (step_accept s failed)
  then have "accepting (listener s) = [make_session]" by (simp add: system_ok_def)
  with step_accept show ?case by (simp add: accept_completes_one running_on_def nth_append)
next
  case (step_files s f)
  then show ?case by (simp add: running_on_def)
qed

text \<open>The view of a connection: its state and what is run on it.\<close>

definition local_state :: "system \<Rightarrow> nat \<Rightarrow> connection \<times> completion list \<Rightarrow> bool" where
  "local_state s i x \<longleftrightarrow> i < length (conns s) \<and> conns s ! i = fst x \<and> running_on s i = snd x"

lemma waits_for:
  assumes "server_run router ip threads p w \<sigma> ls" "world_ok w" "local_state (\<sigma> n) i x"
    and "\<And>s l t. system_ok s \<Longrightarrow> local_state s i x \<Longrightarrow> system_step router ip threads s l t \<Longrightarrow>
      acts_on i l \<Longrightarrow> P l"
    and "\<exists>m \<ge> n. P (ls m)"
  shows "\<exists>m \<ge> n. P (ls m) \<and> local_state (\<sigma> m) i x"
proof -
  define m where "m = (LEAST m. n \<le> m \<and> P (ls m))"
  have m: "n \<le> m" "P (ls m)" using LeastI_ex [OF assms(5)] by (simp_all add: m_def)
  have early: "\<not> P (ls j)" if "n \<le> j" "j < m" for j
    using not_less_Least [of j "\<lambda>m. n \<le> m \<and> P (ls m)"] that by (simp add: m_def)
  have "local_state (\<sigma> j) i x" if "n \<le> j" "j \<le> m" for j
    using that
  proof (induction j rule: nat_induct_at_least)
    case (Suc j)
    then have j: "local_state (\<sigma> j) i x" "\<not> P (ls j)" using early by simp_all
    have step: "system_step router ip threads (\<sigma> j) (ls j) (\<sigma> (Suc j))"
      using assms(1) by (simp add: server_run_def)
    have ok: "system_ok (\<sigma> j)" by (rule run_ok [OF assms(1,2)])
    have "\<not> acts_on i (ls j)" using assms(4) [OF ok j(1) step] j(2) by blast
    from step_frame [OF step ok this] j(1) show ?case by (simp add: local_state_def)
  qed (rule assms(3))
  with m show ?thesis by blast
qed

lemma handler_ends:
  assumes "server_run router ip threads p w \<sigma> ls" "world_ok w" "fair_run \<sigma> ls"
    and "local_state (\<sigma> n) i (c, [k])" "pending c = []"
  shows "\<exists>m \<ge> n. ls m = Finish i k \<and> local_state (\<sigma> m) i (c, [k])"
proof (rule waits_for [OF assms(1,2,4)])
  have "(i, k) \<in> set (running (\<sigma> n))" using assms(4) by (simp add: local_state_def running_on_set)
  then show "\<exists>m \<ge> n. ls m = Finish i k" using assms(3) by (simp add: fair_run_def)
next
  fix s l t
  assume "local_state s i (c, [k])" "system_step router ip threads s l t" "acts_on i l"
  from this(2,1,3) show "l = Finish i k"
    by (cases rule: system_step.cases) (use assms(5) in \<open>auto simp: local_state_def running_on_set\<close>)
qed

lemma write_completes:
  assumes "server_run router ip threads p w \<sigma> ls" "world_ok w" "fair_run \<sigma> ls"
    and "local_state (\<sigma> n) i (c, [])" "pending c = [Async_write str]"
  shows "\<exists>m \<ge> n. (\<exists>k. operation_of k = Async_write str \<and> ls m = Dispatch i k) \<and> local_state (\<sigma> m) i (c, [])"
proof (rule waits_for [OF assms(1,2,4)])
  show "\<exists>m \<ge> n. \<exists>k. operation_of k = Async_write str \<and> ls m = Dispatch i k"
    using assms(3-5) by (simp add: fair_run_def local_state_def)
next
  fix s l t
  assume "local_state s i (c, [])" "system_step router ip threads s l t" "acts_on i l"
  from this(2,1,3) show "\<exists>k. operation_of k = Async_write str \<and> l = Dispatch i k"
    by (cases rule: system_step.cases)
      (use assms(5) in \<open>auto simp: local_state_def running_on_set\<close>)
qed

section \<open>Answers\<close>

lemma local_dispatch:
  assumes "server_run router ip threads p w \<sigma> ls" "world_ok w" "ls n = Dispatch i k"
  shows "i < length (conns (\<sigma> n))" "pending (conns (\<sigma> n) ! i) = [operation_of k]" "completion_ok k"
    "local_state (\<sigma> (Suc n)) i ((conns (\<sigma> n) ! i)\<lparr>pending := []\<rparr>, [k])"
proof -
  have step: "system_step router ip threads (\<sigma> n) (Dispatch i k) (\<sigma> (Suc n))"
    using assms(1,3) by (metis server_run_def)
  then have i: "i < length (conns (\<sigma> n))" "operation_of k \<in> set (pending (conns (\<sigma> n) ! i))"
    and k: "completion_ok k" and next_state: "\<sigma> (Suc n) = dispatch i k (\<sigma> n)"
    by (auto elim: dispatchE)
  note alone = pending_alone [OF run_ok [OF assms(1,2)] i]
  show "i < length (conns (\<sigma> n))" "pending (conns (\<sigma> n) ! i) = [operation_of k]" "completion_ok k"
    by (rule i(1) alone(1) k)+
  show "local_state (\<sigma> (Suc n)) i ((conns (\<sigma> n) ! i)\<lparr>pending := []\<rparr>, [k])"
    unfolding next_state local_state_def using i(1) alone
    by (simp add: running_on_dispatch) (simp add: dispatch_def Let_def)
qed

lemma local_finish:
  assumes "server_run router ip threads p w \<sigma> ls" "world_ok w" "ls n = Finish i k"
    and "local_state (\<sigma> n) i (c, [k])" "pending c = []"
    and "h = run_handler router (ip i) k (conn_session c) (shared (\<sigma> n))"
  shows "raised h = None" "shared (\<sigma> (Suc n)) = world_after h"
    "local_state (\<sigma> (Suc n)) i
       (c\<lparr>conn_session := session_after h, pending := started h, sent := sent c @ delivered k, crash := None\<rparr>, [])"
proof -
  have step: "system_step router ip threads (\<sigma> n) (Finish i k) (\<sigma> (Suc n))"
    using assms(1,3) by (metis server_run_def)
  then have k: "(i, k) \<in> set (running (\<sigma> n))" and next_state: "\<sigma> (Suc n) = finish router (ip i) i k (\<sigma> n)"
    by (auto elim: finishE)
  have "aborted (\<sigma> (Suc n)) = None" by (rule run_alive [OF assms(1)])
  then show calm: "raised h = None"
    using assms(4,6) by (simp add: next_state finish_def Let_def local_state_def)
  show "shared (\<sigma> (Suc n)) = world_after h"
    using assms(4,6) by (simp add: next_state finish_def Let_def local_state_def)
  have "running_on (\<sigma> (Suc n)) i = []"
    unfolding next_state by (simp add: running_on_finish [OF run_ok [OF assms(1,2)] k])
  with assms(4-6) calm show "local_state (\<sigma> (Suc n)) i
       (c\<lparr>conn_session := session_after h, pending := started h, sent := sent c @ delivered k, crash := None\<rparr>, [])"
    unfolding local_state_def by (simp add: next_state) (simp add: finish_def Let_def)
qed

lemma write_ends:
  assumes "server_run router ip threads p w \<sigma> ls" "world_ok w" "fair_run \<sigma> ls"
    and "local_state (\<sigma> n) i (c, [])" "pending c = [Async_write str]" "buffer (conn_session c) = []"
  shows "\<exists>m \<ge> n. ls m = Finish i (Write_failed str) \<or>
    ls m = Finish i (Write_done str) \<and> idle (conns (\<sigma> (Suc m)) ! i) \<and>
    sent (conns (\<sigma> (Suc m)) ! i) = sent c @ [str]"
proof -
  obtain m1 k where m1: "n \<le> m1" "operation_of k = Async_write str" "ls m1 = Dispatch i k"
    "local_state (\<sigma> m1) i (c, [])"
    using write_completes [OF assms(1-5)] by blast
  then have "local_state (\<sigma> (Suc m1)) i (c\<lparr>pending := []\<rparr>, [k])"
    using local_dispatch(4) [OF assms(1,2) m1(3)] by (simp add: local_state_def)
  from handler_ends [OF assms(1-3) this] obtain m2 where m2: "Suc m1 \<le> m2" "ls m2 = Finish i k"
    "local_state (\<sigma> m2) i (c\<lparr>pending := []\<rparr>, [k])"
    by auto
  from m1(2) consider "k = Write_done str" | "k = Write_failed str" by (cases k) simp_all
  then show ?thesis
  proof cases
    case 1
    from local_finish(3) [OF assms(1,2) m2(2,3) _ refl] 1 assms(6)
    have "idle (conns (\<sigma> (Suc m2)) ! i) \<and> sent (conns (\<sigma> (Suc m2)) ! i) = sent c @ [str]"
      by (simp add: local_state_def idle_def handle_write_def)
    with 1 m1(1) m2(1,2) show ?thesis by (intro exI [of _ m2]) simp
  next
    case 2
    with m1(1) m2(1,2) show ?thesis by (intro exI [of _ m2]) simp
  qed
qed

lemma answered_in_fair_run:
  assumes "world_ok w" "server_run router ip threads p w \<sigma> ls" "fair_run \<sigma> ls"
    and "ls n = Dispatch i (Read_done raw)" "buffer (conn_session (conns (\<sigma> n) ! i)) = []" "whole_request raw"
  shows "\<exists>m1 > n. \<exists>m2 > m1. \<exists>r w' str. ls m1 = Finish i (Read_done raw) \<and>
    response_of router (parse raw) (shared (\<sigma> m1)) = (Inr r, w') \<and> shared (\<sigma> (Suc m1)) = w' \<and>
    convert_to_string r = Inr str \<and>
    (ls m2 = Finish i (Write_failed str) \<or>
     ls m2 = Finish i (Write_done str) \<and> idle (conns (\<sigma> (Suc m2)) ! i) \<and>
       sent (conns (\<sigma> (Suc m2)) ! i) = sent (conns (\<sigma> n) ! i) @ [str])"
proof -
  let ?c = "(conns (\<sigma> n) ! i)\<lparr>pending := []\<rparr>"
  note ok = assms(2,1)
  have "local_state (\<sigma> (Suc n)) i (?c, [Read_done raw])" by (rule local_dispatch(4) [OF ok assms(4)])
  from handler_ends [OF ok assms(3) this] obtain m1 where m1: "n < m1" "ls m1 = Finish i (Read_done raw)"
    "local_state (\<sigma> m1) i (?c, [Read_done raw])"
    by (auto simp: Suc_le_eq)
  note ended = local_finish [OF ok m1(2,3) _ refl]
  have w1: "world_ok (shared (\<sigma> m1))" using run_ok [OF ok] by (simp add: system_ok_def)
  have buf: "buffer (conn_session ?c) = []" using assms(5) by simp
  have "\<exists>r w'. response_of router (parse raw) (shared (\<sigma> m1)) = (Inr r, w')"
    by (rule serve_calm) (use ended(1) buf in \<open>simp add: whole_request_serve [OF assms(6)]\<close>)
  then obtain r w' where r: "response_of router (parse raw) (shared (\<sigma> m1)) = (Inr r, w')" by blast
  from whole_request_served [OF assms(6) w1 buf r, of "ip i"] ended(2,3)
  obtain str where str: "convert_to_string r = Inr str" "shared (\<sigma> (Suc m1)) = w'"
    "local_state (\<sigma> (Suc m1)) i
      (?c\<lparr>conn_session := \<lparr>buffer = []\<rparr>, pending := [Async_write str], crash := None\<rparr>, [])"
    by auto
  from write_ends [OF ok assms(3) str(3)] obtain m2 where "Suc m1 \<le> m2"
    "ls m2 = Finish i (Write_failed str) \<or>
     ls m2 = Finish i (Write_done str) \<and> idle (conns (\<sigma> (Suc m2)) ! i) \<and>
       sent (conns (\<sigma> (Suc m2)) ! i) = sent (conns (\<sigma> n) ! i) @ [str]"
    by auto
  with m1 r str show ?thesis by (intro exI [of _ m1] exI [of _ m2] conjI) auto
qed


text \<open>
  A run of one connection: a client connects, sends a request and is answered with \<open>str\<close>, which leaves
  the world as it is; then nothing happens.
\<close>

definition one_answer :: "routes \<Rightarrow> world \<Rightarrow> string \<Rightarrow> string \<Rightarrow> bool" where
  "one_answer router w raw str \<longleftrightarrow> world_ok w \<and> whole_request raw \<and>
     (\<exists>r. response_of router (parse raw) w = (Inr r, w) \<and> convert_to_string r = Inr str)"

definition quiet :: "system \<Rightarrow> label" where
  "quiet s = Files_change (files (shared s))"

definition one_states :: "routes \<Rightarrow> world \<Rightarrow> string \<Rightarrow> string \<Rightarrow> system list" where
  "one_states router w raw str =
     (let s1 = accepted 80 w;
          s2 = dispatch 0 (Read_done raw) s1;
          s3 = finish router None 0 (Read_done raw) s2;
          s4 = dispatch 0 (Write_done str) s3
      in [start_system 80 w, s1, s2, s3, s4, finish router None 0 (Write_done str) s4])"

definition one_labels :: "string \<Rightarrow> string \<Rightarrow> label list" where
  "one_labels raw str =
     [Accept False, Dispatch 0 (Read_done raw), Finish 0 (Read_done raw),
      Dispatch 0 (Write_done str), Finish 0 (Write_done str)]"

definition ending_in :: "'a list \<Rightarrow> 'a \<Rightarrow> nat \<Rightarrow> 'a" where
  "ending_in xs x n = (if n < length xs then xs ! n else x)"

lemma quiet_step:
  "aborted s = None \<Longrightarrow> world_ok (shared s) \<Longrightarrow> system_step router ip threads s (quiet s) s"
  using step_files [of s "files (shared s)" router ip threads] by (simp add: quiet_def world_ok_def)

lemma run_of_list:
  assumes "hd ss = start_system p w" "length ss = Suc (length ls)"
    and "\<And>n. n < length ls \<Longrightarrow> system_step router ip threads (ss ! n) (ls ! n) (ss ! Suc n)"
    and "aborted (last ss) = None" "world_ok (shared (last ss))"
  shows "server_run router ip threads p w (ending_in ss (last ss)) (ending_in ls (quiet (last ss)))"
proof -
  have ne: "ss \<noteq> []" using assms(2) by auto
  have last: "last ss = ss ! length ls" using assms(2) ne by (simp add: last_conv_nth)
  have "system_step router ip threads (ending_in ss (last ss) n) (ending_in ls (quiet (last ss)) n)
      (ending_in ss (last ss) (Suc n))" for n
    using assms(2) assms(3) [of n] quiet_step [OF assms(4,5)] last
    by (cases "n < length ls") (auto simp: ending_in_def not_less le_less Suc_less_eq)
  with ne assms(1) show ?thesis by (simp add: server_run_def ending_in_def hd_conv_nth)
qed

text \<open>What is pending and what is running in the states of that run.\<close>

definition at_work :: "system \<Rightarrow> io_op list list \<times> (nat \<times> completion) list" where
  "at_work s = (map pending (conns s), running s)"

lemma one_facts:
  assumes "one_answer router w raw str"
  shows "map at_work (one_states router w raw str) =
      [([], []), ([[Async_read_some]], []), ([[]], [(0, Read_done raw)]),
       ([[Async_write str]], []), ([[]], [(0, Write_done str)]), ([[Async_read_some]], [])]"
    and "\<forall>s \<in> set (one_states router w raw str). shared s = w \<and> aborted s = None"
proof -
  let ?s1 = "accepted 80 w"
  let ?k = "Read_done raw" let ?w = "Write_done str"
  let ?s2 = "dispatch 0 ?k ?s1"
  let ?s3 = "finish router None 0 ?k ?s2"
  let ?s4 = "dispatch 0 ?w ?s3"
  let ?s5 = "finish router None 0 ?w ?s4"
  obtain r where r: "whole_request raw" "world_ok w" "response_of router (parse raw) w = (Inr r, w)"
    "convert_to_string r = Inr str"
    using assms by (auto simp: one_answer_def)
  note read = whole_request_served [OF r(1,2) _ r(3), of make_session None, unfolded r(4)]
  have c1: "conns ?s1 = [\<lparr>conn_session = make_session, conn_world = w,
      pending = [Async_read_some], sent = [], crash = None\<rparr>]"
    by (simp add: open_connection_def start_def)
  have s2: "conns ?s2 = [\<lparr>conn_session = make_session, conn_world = w,
      pending = [], sent = [], crash = None\<rparr>]" "running ?s2 = [(0, ?k)]" "shared ?s2 = w"
    "aborted ?s2 = None"
    using c1 by (simp_all add: dispatch_def Let_def)
  have s3: "conns ?s3 = [\<lparr>conn_session = \<lparr>buffer = []\<rparr>, conn_world = w,
      pending = [Async_write str], sent = [], crash = None\<rparr>]" "running ?s3 = []" "shared ?s3 = w"
    "aborted ?s3 = None"
    using s2 read by (auto simp: finish_def Let_def make_session_def)
  have s4: "conns ?s4 = [\<lparr>conn_session = \<lparr>buffer = []\<rparr>, conn_world = w,
      pending = [], sent = [], crash = None\<rparr>]" "running ?s4 = [(0, ?w)]" "shared ?s4 = w"
    "aborted ?s4 = None"
    using s3 by (simp_all add: dispatch_def Let_def)
  have s5: "map pending (conns ?s5) = [[Async_read_some]]" "running ?s5 = []"
    "shared ?s5 = w" "aborted ?s5 = None"
    using s4 by (simp_all add: finish_def Let_def handle_write_def)
  show "map at_work (one_states router w raw str) =
      [([], []), ([[Async_read_some]], []), ([[]], [(0, Read_done raw)]),
       ([[Async_write str]], []), ([[]], [(0, Write_done str)]), ([[Async_read_some]], [])]"
    using c1 s2(1,2) s3(1,2) s4(1,2) s5(1,2)
    by (simp add: one_states_def at_work_def Let_def start_system_def make_server_def start_accept_def)
  show "\<forall>s \<in> set (one_states router w raw str). shared s = w \<and> aborted s = None"
    using s2(3,4) s3(3,4) s4(3,4) s5(3,4)
    by (simp add: one_states_def Let_def) (simp add: start_system_def)
qed

lemma step_at_work:
  assumes "at_work s = (ops, rs)" "aborted s = None"
  shows "i < length ops \<Longrightarrow> operation_of k \<in> set (ops ! i) \<Longrightarrow> length rs < threads \<Longrightarrow> completion_ok k \<Longrightarrow>
      system_step router ip threads s (Dispatch i k) (dispatch i k s)"
    and "(i, k) \<in> set rs \<Longrightarrow> system_step router ip threads s (Finish i k) (finish router (ip i) i k s)"
  using assms by (auto simp: at_work_def intro!: step_dispatch step_finish)

lemma one_steps:
  assumes "one_answer router w raw str" "n < length (one_labels raw str)"
  shows "system_step router (\<lambda>_. None) 4 (one_states router w raw str ! n) (one_labels raw str ! n)
    (one_states router w raw str ! Suc n)"
proof -
  note facts = one_facts [OF assms(1)]
  have first: "system_step router (\<lambda>_. None) 4 (start_system 80 w) (Accept False)
      (accepted 80 w)"
    using step_accept [of "start_system 80 w" 4 router "\<lambda>_. None" False]
    by (simp add: start_system_def accepted_def make_server_def start_accept_def accept_completes_one)
  have "completion_ok (Read_done raw)" using assms(1) by (simp add: one_answer_def whole_request_def)
  then have "\<forall>n \<in> {0, 1, 2, 3, 4}. system_step router (\<lambda>_. None) 4 (one_states router w raw str ! n)
      (one_labels raw str ! n) (one_states router w raw str ! Suc n)"
    using facts first step_at_work(2) [where i = 0 and ip = "\<lambda>_. None"]
    by (simp add: one_states_def one_labels_def Let_def step_at_work(1))
  moreover have "n \<in> {0, 1, 2, 3, 4}" using assms(2) by (auto simp: one_labels_def)
  ultimately show ?thesis by blast
qed

lemma one_run:
  assumes "one_answer router w raw str"
  shows "server_run router (\<lambda>_. None) 4 80 w
      (ending_in (one_states router w raw str) (last (one_states router w raw str)))
      (ending_in (one_labels raw str) (quiet (last (one_states router w raw str))))"
proof (rule run_of_list [OF _ _ one_steps [OF assms]])
  have "last (one_states router w raw str) \<in> set (one_states router w raw str)" by (rule last_in_set) (simp add: one_states_def Let_def)
  with one_facts(2) [OF assms]
  show "aborted (last (one_states router w raw str)) = None" "world_ok (shared (last (one_states router w raw str)))"
    using assms by (simp_all add: one_answer_def)
qed (simp_all add: one_states_def one_labels_def Let_def)

lemma one_fair:
  assumes "one_answer router w raw str"
  shows "fair_run (ending_in (one_states router w raw str) (last (one_states router w raw str)))
      (ending_in (one_labels raw str) (quiet (last (one_states router w raw str))))"
proof -
  let ?ss = "ending_in (one_states router w raw str) (last (one_states router w raw str))"
  let ?ls = "ending_in (one_labels raw str) (quiet (last (one_states router w raw str)))"
  have labels: "?ls 2 = Finish 0 (Read_done raw)" "?ls 3 = Dispatch 0 (Write_done str)"
    "?ls 4 = Finish 0 (Write_done str)"
    by (simp_all add: ending_in_def one_labels_def)
  have six: "length (one_states router w raw str) = 6" by (simp add: one_states_def Let_def)
  then have "one_states router w raw str \<noteq> []" by auto
  then have late: "?ss n = one_states router w raw str ! min n 5" for n
    using six last_conv_nth [of "one_states router w raw str"] by (cases "n < 6") (auto simp: ending_in_def)
  have view: "at_work (?ss n) = map at_work (one_states router w raw str) ! min n 5" for n
    by (simp add: late six)
  have at: "at_work (?ss n) = ([[]], [(0, Read_done raw)]) \<and> n = 2 \<or>
      at_work (?ss n) = ([[Async_write str]], []) \<and> n = 3 \<or>
      at_work (?ss n) = ([[]], [(0, Write_done str)]) \<and> n = 4 \<or>
      at_work (?ss n) \<in> {([], []), ([[Async_read_some]], [])}" for n
  proof -
    consider "n = 0" | "n = 1" | "n = 2" | "n = 3" | "n = 4" | "5 \<le> n" by linarith
    then show ?thesis unfolding view one_facts(1) [OF assms] by cases (simp_all add: min_absorb2)
  qed
  have "\<exists>m \<ge> n. ?ls m = Finish i k" if "(i, k) \<in> set (running (?ss n))" for n i k
    using at [of n] that labels by (auto simp: at_work_def)
  moreover have "\<exists>m \<ge> n. \<exists>k. operation_of k = Async_write str' \<and> ?ls m = Dispatch i k"
    if "i < length (conns (?ss n))" "Async_write str' \<in> set (pending (conns (?ss n) ! i))" for n i str'
  proof -
    have "Async_write str' \<in> set (fst (at_work (?ss n)) ! i)" "i < length (fst (at_work (?ss n)))"
      using that by (simp_all add: at_work_def)
    with at [of n] have "n = 3" "i = 0" "str' = str" by (auto simp: nth_Cons')
    with labels(2) show ?thesis by (intro exI [of _ 3] conjI exI [of _ "Write_done str"]) simp_all
  qed
  ultimately show ?thesis unfolding fair_run_def by blast
qed

lemma one_starts:
  "ending_in (one_labels raw str) (quiet (last (one_states router w raw str))) 1 = Dispatch 0 (Read_done raw)"
  "buffer (conn_session (conns (ending_in (one_states router w raw str) (last (one_states router w raw str)) 1) ! 0)) = []"
  "sent (conns (ending_in (one_states router w raw str) (last (one_states router w raw str)) 1) ! 0) = []"
  by (simp_all add: ending_in_def one_labels_def one_states_def Let_def)
    (simp_all add: open_connection_def start_def make_session_def)

lemma one_shared:
  assumes "one_answer router w raw str"
  shows "shared (ending_in (one_states router w raw str) (last (one_states router w raw str)) n) = w"
proof -
  have "one_states router w raw str \<noteq> []" by (simp add: one_states_def Let_def)
  then have "ending_in (one_states router w raw str) (last (one_states router w raw str)) n
      \<in> set (one_states router w raw str)"
    by (simp add: ending_in_def)
  with one_facts(2) [OF assms] show ?thesis by blast
qed

lemma one_health:
  assumes "convert_to_string (reply 200 ''OK'' ''text/plain'' ''OK'') = Inr str"
  shows "one_answer health_routes example_world health_bytes str"
proof -
  have "whole_request health_bytes" by code_simp
  with assms show ?thesis by (simp add: one_answer_def world_ok_example health_response)
qed


end
