(* ===== verification/Exchanges.thy ===== *)
theory Exchanges
  imports System_Calls Fair_Runs
begin

text \<open>
  What a client sees of the running server (src/session.cc, src/server_main.cc): the history of each
  connection, that is the bytes that its read handlers have taken and the requests that they have answered,
  and how it relates to what the connection has been sent. As everywhere in \<open>System\<close>, the operation that a
  handler starts completes after the handler has ended.
\<close>

section \<open>Histories\<close>

record exchange =
  asked :: string
  seen :: world
  answered :: string

record history =
  intake :: string
  exchanges :: "exchange list"

definition no_history :: history where
  "no_history = \<lparr>intake = [], exchanges = []\<rparr>"

fun written :: "io_op \<Rightarrow> string list" where
  "written Async_read_some = []"
| "written (Async_write str) = [str]"

text \<open>A read handler ends: it has taken the bytes of the read, and may have begun to write an answer to all that was kept.\<close>

definition note_read :: "routes \<Rightarrow> string option \<Rightarrow> string \<Rightarrow> session \<Rightarrow> world \<Rightarrow> history \<Rightarrow> history" where
  "note_read router a bytes s w h =
     \<lparr>intake = intake h @ bytes,
      exchanges = exchanges h @
        map (\<lambda>str. \<lparr>asked = buffer s @ bytes, seen = w, answered = str\<rparr>)
          (concat (map written (started (handle_read router False bytes a s w))))\<rparr>"

fun note_step :: "routes \<Rightarrow> (nat \<Rightarrow> string option) \<Rightarrow> label \<Rightarrow> system \<Rightarrow> (nat \<Rightarrow> history) \<Rightarrow> nat \<Rightarrow> history" where
  "note_step router ip (Finish i (Read_done bytes)) s h =
     h(i := note_read router (ip i) bytes (conn_session (conns s ! i)) (shared s) (h i))"
| "note_step router ip _ s h = h"

inductive recorded ::
  "routes \<Rightarrow> (nat \<Rightarrow> string option) \<Rightarrow> nat \<Rightarrow> 16 word \<Rightarrow> world \<Rightarrow> system \<Rightarrow> (nat \<Rightarrow> history) \<Rightarrow> bool"
  for router ip threads p w where
  recorded_start: "recorded router ip threads p w (start_system p w) (\<lambda>_. no_history)"
| recorded_step:
    "recorded router ip threads p w s h \<Longrightarrow> system_step router ip threads s l t \<Longrightarrow>
     recorded router ip threads p w t (note_step router ip l s h)"

lemma recorded_reachable: "recorded router ip threads p w s h \<Longrightarrow> system_reachable router ip threads p w s"
  by (induction rule: recorded.induct) (auto intro: reachable_start reachable_step)

lemma reachable_recorded:
  "system_reachable router ip threads p w s \<Longrightarrow> \<exists>h. recorded router ip threads p w s h"
  unfolding system_reachable_def
  by (induction rule: rtranclp_induct) (auto simp: some_step_def intro: recorded_start recorded_step)

section \<open>What an answer is\<close>

text \<open>The specification of an answer to the bytes \<open>buf\<close>, in a world, independent of the session.\<close>

definition answer_to :: "routes \<Rightarrow> string \<Rightarrow> world \<Rightarrow> string \<Rightarrow> bool" where
  "answer_to router buf w str \<longleftrightarrow>
     \<not> is_valid (parse buf) \<and> str = bad_request_bytes ''Malformed HTTP request'' \<or>
     (\<exists>v e. get_request_header ''Content-Length'' (parse buf) = Some v \<and> stoull v = Inl e \<and>
        str = bad_request_bytes ''Invalid Content-Length header'') \<or>
     is_valid (parse buf) \<and> body_complete buf \<and>
       (\<exists>r w'. response_of router (parse buf) w = (Inr r, w') \<and> convert_to_string r = Inr str)"

lemma serve_outcome:
  assumes "world_ok w"
  shows "(\<exists>r w' str. response_of router q w = (Inr r, w') \<and> convert_to_string r = Inr str \<and>
      started (serve router q a s w) = [Async_write str] \<and> buffer (session_after (serve router q a s w)) = []) \<or>
    started (serve router q a s w) = [] \<and> session_after (serve router q a s w) = s"
proof (cases "fst (response_of router q w)")
  case (Inr r)
  then obtain w' where r: "response_of router q w = (Inr r, w')" by (cases "response_of router q w") simp
  from serve_response [OF assms r, of a s] r show ?thesis by auto
next
  case (Inl e)
  then show ?thesis
    by (auto simp: response_of_def serve_def Let_def split: sum.splits option.splits prod.splits)
qed

lemma read_outcome:
  assumes "world_ok w" "h = handle_read router False bytes a s w"
  shows "(\<exists>str. started h = [Async_write str] \<and> buffer (session_after h) = [] \<and>
      answer_to router (buffer s @ bytes) w str) \<or>
    concat (map written (started h)) = [] \<and> buffer (session_after h) = buffer s @ bytes"
proof -
  let ?buf = "buffer s @ bytes"
  have s: "s\<lparr>buffer := ?buf\<rparr> = \<lparr>buffer = ?buf\<rparr>" by simp
  consider "check_malformed_request ?buf \<noteq> NoneMalformed"
    | "check_malformed_request ?buf = NoneMalformed" "\<not> detect_http_request ?buf"
    | x where "check_malformed_request ?buf = NoneMalformed" "detect_http_request ?buf"
        "check_body (parse ?buf) a \<lparr>buffer = ?buf\<rparr> w = Some x"
    | "check_malformed_request ?buf = NoneMalformed" "detect_http_request ?buf"
        "check_body (parse ?buf) a \<lparr>buffer = ?buf\<rparr> w = None"
    by blast
  then show ?thesis
  proof cases
    case 1
    then have "\<not> is_valid (parse ?buf)" using is_valid_end_of_head by auto
    with 1 assms(2) show ?thesis by (simp add: handle_read_def reject_eq answer_to_def)
  next
    case 2
    with assms(2) show ?thesis by (simp add: handle_read_def keep_reading_def)
  next
    case 3
    then show ?thesis using assms(2)
      by (auto simp: handle_read_def s check_body_def Let_def reject_eq answer_to_def
          split: option.splits sum.splits if_splits)
  next
    case 4
    then have body: "body_complete ?buf" by (simp add: check_body_complete)
    show ?thesis
    proof (cases "is_valid (parse ?buf)")
      case True
      with 4 assms(2) have "h = serve router (parse ?buf) a \<lparr>buffer = ?buf\<rparr> w"
        by (simp add: handle_read_def s Let_def)
      with serve_outcome [OF assms(1), of router "parse ?buf" a "\<lparr>buffer = ?buf\<rparr>"] True body
      show ?thesis by (auto simp: answer_to_def)
    next
      case False
      with 4 assms(2) show ?thesis by (simp add: handle_read_def s Let_def reject_eq answer_to_def)
    qed
  qed
qed

section \<open>The invariant of a connection and its history\<close>

definition history_ok :: "routes \<Rightarrow> connection \<Rightarrow> history \<Rightarrow> bool" where
  "history_ok router c h \<longleftrightarrow>
     intake h = concat (map asked (exchanges h)) @ buffer (conn_session c) \<and>
     (map answered (exchanges h) = sent c @ concat (map written (pending c)) \<or>
      pending c = [] \<and> (\<exists>str. map answered (exchanges h) = sent c @ [str])) \<and>
     (\<forall>x \<in> set (exchanges h). world_ok (seen x) \<and> answer_to router (asked x) (seen x) (answered x))"

lemma history_ok_cong:
  "conn_session c' = conn_session c \<Longrightarrow> sent c' = sent c \<Longrightarrow> pending c' = pending c \<Longrightarrow>
     history_ok router c' h = history_ok router c h"
  by (simp add: history_ok_def)

lemma history_ok_handler:
  assumes "world_ok (conn_world c)" "pending c = [operation_of k]" "history_ok router c h"
    and "e = run_handler router a k (conn_session c) (conn_world c)"
  shows "history_ok router
    (c\<lparr>conn_session := session_after e, conn_world := world_after e, pending := started e, crash := raised e,
       sent := sent c @ delivered k\<rparr>)
    (case k of Read_done bytes \<Rightarrow> note_read router a bytes (conn_session c) (conn_world c) h | _ \<Rightarrow> h)"
proof (cases k)
  case (Read_done bytes)
  then have h: "intake h = concat (map asked (exchanges h)) @ buffer (conn_session c)"
    "map answered (exchanges h) = sent c"
    "\<forall>x \<in> set (exchanges h). world_ok (seen x) \<and> answer_to router (asked x) (seen x) (answered x)"
    using assms(2,3) by (auto simp: history_ok_def)
  have e: "handle_read router False bytes a (conn_session c) (conn_world c) = e"
    using assms(4) Read_done by simp
  from read_outcome [OF assms(1) e [symmetric]] consider
    str where "started e = [Async_write str]" "buffer (session_after e) = []"
      "answer_to router (buffer (conn_session c) @ bytes) (conn_world c) str"
  | "concat (map written (started e)) = []" "buffer (session_after e) = buffer (conn_session c) @ bytes"
    by blast
  then show ?thesis
  proof cases
    case 1
    then show ?thesis
      unfolding Read_done completion.case history_ok_def note_read_def e using h assms(1) by simp
  next
    case 2
    then show ?thesis
      unfolding Read_done completion.case history_ok_def note_read_def e 2 using h 2 by simp
  qed
qed (use assms in \<open>auto simp: history_ok_def handle_read_def handle_write_def\<close>)

lemma history_ok_finish:
  assumes "system_ok s" "(i, k) \<in> set (running s)" "history_ok router (conn_of s i) (h i)"
  shows "history_ok router (conn_of (finish router (ip i) i k s) i) (note_step router ip (Finish i k) s h i)"
proof -
  have w: "world_ok (conn_world (conn_of s i))" using assms(1) by (simp add: system_ok_def)
  have c: "pending (conn_of s i) = [operation_of k]" using running_alone [OF assms(1,2)] by simp
  have "note_step router ip (Finish i k) s h i =
      (case k of Read_done bytes \<Rightarrow>
         note_read router (ip i) bytes (conn_session (conn_of s i)) (conn_world (conn_of s i)) (h i)
       | _ \<Rightarrow> h i)"
    by (cases k) simp_all
  with history_ok_handler [OF w c assms(3) refl, of "ip i"] conn_of_finish(1) [OF assms(1,2), of router "ip i"]
  show ?thesis by (simp only: Let_def)
qed

lemma note_other: "\<not> acts_on i l \<Longrightarrow> note_step router ip l s h i = h i"
  by (cases "(router, ip, l, s, h)" rule: note_step.cases) simp_all

lemma history_ok_recorded:
  assumes "world_ok w" "recorded router ip threads p w s h"
  shows "(\<forall>i < length (conns s). history_ok router (conn_of s i) (h i)) \<and>
    (\<forall>i \<ge> length (conns s). h i = no_history)"
  using assms(2)
proof (induction rule: recorded.induct)
  case recorded_start
  then show ?case by (simp add: start_system_def make_server_def start_accept_def)
next
  case (recorded_step s h l t)
  have ok: "system_ok s" by (rule system_ok_reachable [OF assms(1) recorded_reachable [OF recorded_step(1)]])
  have new: "history_ok router (open_connection (shared s)) no_history"
    by (simp add: history_ok_def no_history_def open_connection_def start_def make_session_def)
  have kept: "history_ok router (conn_of t i) (note_step router ip l s h i)" if i: "i < length (conns s)" for i
  proof (cases "acts_on i l")
    case False
    from step_frame [OF recorded_step(2) ok False i] recorded_step(3) i show ?thesis
      unfolding note_other [OF False] by (subst history_ok_cong [of _ "conn_of s i"]) auto
  next
    case True
    from recorded_step(2) show ?thesis
    proof (cases rule: system_step.cases)
      case (step_dispatch j k)
      with True recorded_step(3) i show ?thesis by (simp add: conn_of_dispatch [OF ok])
    next
      case (step_finish j k)
      with True recorded_step(3) i show ?thesis
        using history_ok_finish [OF ok, of i k router h ip] by simp
    qed (use True in simp_all)
  qed
  have other: "note_step router ip l s h i = no_history" if "\<not> i < length (conns s)" for i
  proof -
    have "\<not> acts_on i l"
      using recorded_step(2) that by (cases rule: system_step.cases) (auto dest: system_ok_running [OF ok])
    with note_other [of i l router ip s h] recorded_step(3) that show ?thesis by simp
  qed
  have grows: "length (conns s) \<le> length (conns t)"
    using recorded_step(2) ok
    by (cases rule: system_step.cases)
      (auto simp: dispatch_def Let_def system_ok_def accept_completes_one)
  show ?case
  proof (intro conjI allI impI)
    fix i
    assume i: "i < length (conns t)"
    show "history_ok router (conn_of t i) (note_step router ip l s h i)"
    proof (cases "i < length (conns s)")
      case False
      with new other step_opens [OF recorded_step(2) ok i] show ?thesis by simp
    qed (rule kept)
  qed (use other grows in auto)
qed

lemma history_ok_in_order:
  assumes "conn_ok c" "history_ok router c h"
  shows "prefix (sent c) (map answered (exchanges h)) \<and> length (exchanges h) \<le> length (sent c) + 1 \<and>
    (Async_read_some \<in> set (pending c) \<longrightarrow> map answered (exchanges h) = sent c)"
proof -
  have "pending c = [] \<or> pending c = [Async_read_some] \<or> (\<exists>str. pending c = [Async_write str])"
  proof (cases "pending c")
    case (Cons operation rest)
    then have "pending c = [operation]" using conn_ok_pending [OF assms(1), of operation] by simp
    then show ?thesis by (cases operation) auto
  qed simp
  then obtain rest where rest: "map answered (exchanges h) = sent c @ rest" "length rest \<le> 1"
    "Async_read_some \<in> set (pending c) \<longrightarrow> rest = []"
    using assms(2) unfolding history_ok_def by (elim conjE disjE exE) auto
  have "length (exchanges h) = length (sent c) + length rest"
    using rest(1) by (metis length_append length_map)
  with rest show ?thesis by auto
qed

section \<open>Exchanges\<close>



end
