(* ===== verification/Session_Overlap.thy ===== *)
theory Session_Overlap
  imports Exchanges
begin

text \<open>
  A session whose handlers overlap (src/session.cc). \<open>Session\<close> lets a handler start its operation when
  it ends. In the code \<open>handle_read\<close> calls \<open>async_write\<close> and goes on: it logs, clears \<open>buffer_\<close> and
  returns, which destroys the string whose bytes are being written. Nothing orders these statements
  before the completion of the write, because the handlers of a session share no strand. Here a
  handler is split at the call: what comes after it is a tail, which runs at any later time.
\<close>

section \<open>Handlers with tails\<close>

text \<open>\<open>handle_read\<close> up to the operation that it starts: the buffer is not yet cleared.\<close>

definition read_head :: "routes \<Rightarrow> string \<Rightarrow> string option \<Rightarrow> session \<Rightarrow> world \<Rightarrow> handled" where
  "read_head router bytes ip s w =
     (handle_read router False bytes ip s w)\<lparr>session_after := s\<lparr>buffer := buffer s @ bytes\<rparr>\<rparr>"

text \<open>The part after \<open>async_write\<close>, as far as the session is concerned.\<close>

definition read_tail :: "session \<Rightarrow> session" where
  "read_tail s = s\<lparr>buffer := []\<rparr>"

text \<open>
  The strings \<open>response_str\<close> by their addresses, the address that the pending write reads from, and
  the handlers that have still to return, named by their strings.
\<close>

datatype string_object = Live string | Destroyed

record overlapped =
  conn :: connection
  objects :: "string_object list"
  source :: "nat option"
  tails :: "nat list"
  undefined_read :: bool

definition alone :: "connection \<Rightarrow> overlapped" where
  "alone c = \<lparr>conn = c, objects = [], source = None, tails = [], undefined_read = False\<rparr>"

fun begin_write :: "io_op list \<Rightarrow> overlapped \<Rightarrow> overlapped" where
  "begin_write [Async_write str] x =
     x\<lparr>objects := objects x @ [Live str], source := Some (length (objects x)),
        tails := tails x @ [length (objects x)]\<rparr>"
| "begin_write _ x = x"

inductive overlap_step :: "routes \<Rightarrow> string option \<Rightarrow> overlapped \<Rightarrow> overlapped \<Rightarrow> bool"
  for router ip where
  head_read:
    "\<not> undefined_read x \<Longrightarrow> crash (conn x) = None \<Longrightarrow> Async_read_some \<in> set (pending (conn x)) \<Longrightarrow>
     bytes \<noteq> [] \<Longrightarrow> length bytes \<le> max_length \<Longrightarrow>
     h = read_head router bytes ip (conn_session (conn x)) (conn_world (conn x)) \<Longrightarrow>
     overlap_step router ip x (begin_write (started h) (x\<lparr>conn := after Async_read_some h (conn x)\<rparr>))"
| head_failed:
    "\<not> undefined_read x \<Longrightarrow> crash (conn x) = None \<Longrightarrow> Async_read_some \<in> set (pending (conn x)) \<Longrightarrow>
     h = handle_read router True [] ip (conn_session (conn x)) (conn_world (conn x)) \<Longrightarrow>
     overlap_step router ip x (x\<lparr>conn := after Async_read_some h (conn x)\<rparr>)"
| tail_ends:
    "\<not> undefined_read x \<Longrightarrow> crash (conn x) = None \<Longrightarrow> a \<in> set (tails x) \<Longrightarrow>
     overlap_step router ip x
       (x\<lparr>conn := (conn x)\<lparr>conn_session := read_tail (conn_session (conn x))\<rparr>,
          objects := (objects x)[a := Destroyed], tails := remove1 a (tails x)\<rparr>)"
| write_sent:
    "\<not> undefined_read x \<Longrightarrow> crash (conn x) = None \<Longrightarrow> Async_write str \<in> set (pending (conn x)) \<Longrightarrow>
     source x = Some a \<Longrightarrow> objects x ! a = Live str \<Longrightarrow>
     h = handle_write False (conn_session (conn x)) (conn_world (conn x)) \<Longrightarrow>
     overlap_step router ip x
       (x\<lparr>conn := (after (Async_write str) h (conn x))\<lparr>sent := sent (conn x) @ [str]\<rparr>, source := None\<rparr>)"
| write_undefined:
    "\<not> undefined_read x \<Longrightarrow> crash (conn x) = None \<Longrightarrow> Async_write str \<in> set (pending (conn x)) \<Longrightarrow>
     source x = Some a \<Longrightarrow> objects x ! a = Destroyed \<Longrightarrow>
     overlap_step router ip x (x\<lparr>undefined_read := True\<rparr>)"
| write_lost:
    "\<not> undefined_read x \<Longrightarrow> crash (conn x) = None \<Longrightarrow> Async_write str \<in> set (pending (conn x)) \<Longrightarrow>
     h = handle_write True (conn_session (conn x)) (conn_world (conn x)) \<Longrightarrow>
     overlap_step router ip x (x\<lparr>conn := after (Async_write str) h (conn x), source := None\<rparr>)"
| world_changes:
    "world_ok w \<Longrightarrow> overlap_step router ip x (x\<lparr>conn := (conn x)\<lparr>conn_world := w\<rparr>\<rparr>)"

definition overlap_reachable :: "routes \<Rightarrow> string option \<Rightarrow> world \<Rightarrow> overlapped \<Rightarrow> bool" where
  "overlap_reachable router ip w x \<longleftrightarrow> (overlap_step router ip)\<^sup>*\<^sup>* (alone (open_connection w)) x"

lemma read_head_simps [simp]:
  "session_after (read_head router bytes ip s w) = s\<lparr>buffer := buffer s @ bytes\<rparr>"
  "world_after (read_head router bytes ip s w) = world_after (handle_read router False bytes ip s w)"
  "started (read_head router bytes ip s w) = started (handle_read router False bytes ip s w)"
  "raised (read_head router bytes ip s w) = raised (handle_read router False bytes ip s w)"
  by (simp_all add: read_head_def)

text \<open>Head and tail together are the handler.\<close>

lemma head_and_tail:
  assumes "world_ok w" "h = handle_read router False bytes ip s w"
  shows "(\<exists>str. started h = [Async_write str] \<and> raised h = None \<and>
      session_after h = read_tail (session_after (read_head router bytes ip s w))) \<or>
    started h \<in> {[], [Async_read_some]} \<and> session_after h = session_after (read_head router bytes ip s w)"
proof -
  have ok: "handled_ok h" unfolding assms(2) by (rule handled_ok_read [OF assms(1)])
  have eq: "s1 = s2 \<longleftrightarrow> buffer s1 = buffer s2" for s1 s2 :: session by (cases s1; cases s2) simp
  from read_outcome [OF assms] consider
    str where "started h = [Async_write str]" "buffer (session_after h) = []"
  | "concat (map written (started h)) = []" "buffer (session_after h) = buffer s @ bytes"
    by blast
  then show ?thesis
  proof cases
    case 1
    with ok show ?thesis by (auto simp: eq read_tail_def handled_ok_def split: option.splits)
  next
    case 2
    with ok have "started h \<in> {[], [Async_read_some]}" by (auto simp: handled_ok_def split: option.splits)
    with 2 show ?thesis by (simp add: eq)
  qed
qed

section \<open>Sessions without overlap are among these\<close>

definition shown_by :: "overlapped \<Rightarrow> connection \<Rightarrow> bool" where
  "shown_by x c \<longleftrightarrow> \<not> undefined_read x \<and>
     (conn x = c \<and> tails x = [] \<and> source x = None \<and> (\<forall>str. Async_write str \<notin> set (pending c)) \<or>
      (\<exists>str a. pending c = [Async_write str] \<and> tails x = [a] \<and> source x = Some a \<and>
         a < length (objects x) \<and> objects x ! a = Live str \<and>
         c = (conn x)\<lparr>conn_session := read_tail (conn_session (conn x))\<rparr>))"

lemma read_shown:
  assumes "shown_by x c" "conn_ok c" "crash c = None" "Async_read_some \<in> set (pending c)"
    and "bytes \<noteq> []" "length bytes \<le> max_length"
  shows "\<exists>y. overlap_step router ip x y \<and>
    shown_by y (after Async_read_some (handle_read router False bytes ip (conn_session c) (conn_world c)) c)"
proof -
  have p: "pending c = [Async_read_some]" by (rule conn_ok_pending [OF assms(2,4)])
  then have x: "conn x = c" "tails x = []" "source x = None" "\<not> undefined_read x"
    using assms(1) by (auto simp: shown_by_def)
  let ?h = "read_head router bytes ip (conn_session c) (conn_world c)"
  let ?g = "handle_read router False bytes ip (conn_session c) (conn_world c)"
  have w: "world_ok (conn_world c)" using assms(2) by (simp add: conn_ok_def)
  have step: "overlap_step router ip x (begin_write (started ?h) (x\<lparr>conn := after Async_read_some ?h c\<rparr>))"
    using head_read [of x bytes ?h router ip] assms(3-6) x by simp
  have "shown_by (begin_write (started ?h) (x\<lparr>conn := after Async_read_some ?h c\<rparr>)) (after Async_read_some ?g c)"
    using head_and_tail [OF w refl, of router bytes ip "conn_session c"] x p
    by (auto simp: shown_by_def after_def nth_append)
  with step show ?thesis by blast
qed

lemma tail_shown:
  assumes "\<not> undefined_read x" "crash (conn x) = None" "tails x = [a]" "source x = None"
    and "\<forall>str. Async_write str \<notin> set (pending (conn x))"
  shows "\<exists>y. overlap_step router ip x y \<and>
    shown_by y ((conn x)\<lparr>conn_session := read_tail (conn_session (conn x))\<rparr>)"
  using tail_ends [OF assms(1,2), of a router ip] assms by (auto simp: shown_by_def)

lemma write_shown:
  assumes "shown_by x c" "conn_ok c" "crash c = None" "Async_write str \<in> set (pending c)"
  shows "\<exists>y. (overlap_step router ip)\<^sup>*\<^sup>* x y \<and> shown_by y
      ((after (Async_write str) (handle_write False (conn_session c) (conn_world c)) c)\<lparr>sent := sent c @ [str]\<rparr>)"
    and "\<exists>y. (overlap_step router ip)\<^sup>*\<^sup>* x y \<and> shown_by y
      (after (Async_write str) (handle_write True (conn_session c) (conn_world c)) c)"
proof -
  have p: "pending c = [Async_write str]" by (rule conn_ok_pending [OF assms(2,4)])
  with assms(1,3) obtain a where x: "\<not> undefined_read x" "tails x = [a]" "source x = Some a"
    "objects x ! a = Live str" "c = (conn x)\<lparr>conn_session := read_tail (conn_session (conn x))\<rparr>"
    by (auto simp: shown_by_def)
  then have c: "crash (conn x) = None" "Async_write str \<in> set (pending (conn x))" "pending (conn x) = [Async_write str]"
    using assms(3) p by (auto dest: arg_cong [of c _ crash] arg_cong [of c _ pending])
  let ?d = "\<lambda>b. after (Async_write str) (handle_write b (conn_session (conn x)) (conn_world (conn x))) (conn x)"
  let ?y = "x\<lparr>conn := (?d False)\<lparr>sent := sent (conn x) @ [str]\<rparr>, source := None\<rparr>"
  have "overlap_step router ip x ?y" by (rule write_sent [OF x(1) c(1,2) x(3,4) refl])
  moreover have "\<exists>y. overlap_step router ip ?y y \<and>
      shown_by y ((conn ?y)\<lparr>conn_session := read_tail (conn_session (conn ?y))\<rparr>)"
    by (rule tail_shown [where a = a]) (use x c in \<open>simp_all add: after_def handle_write_def\<close>)
  moreover have "(conn ?y)\<lparr>conn_session := read_tail (conn_session (conn ?y))\<rparr> =
      (after (Async_write str) (handle_write False (conn_session c) (conn_world c)) c)\<lparr>sent := sent c @ [str]\<rparr>"
    unfolding x(5) by (simp add: after_def handle_write_def)
  ultimately show "\<exists>y. (overlap_step router ip)\<^sup>*\<^sup>* x y \<and> shown_by y
      ((after (Async_write str) (handle_write False (conn_session c) (conn_world c)) c)\<lparr>sent := sent c @ [str]\<rparr>)"
    by (metis converse_rtranclp_into_rtranclp rtranclp.rtrancl_refl)
  let ?z = "x\<lparr>conn := ?d True, source := None\<rparr>"
  have "overlap_step router ip x ?z" by (rule write_lost [OF x(1) c(1,2) refl])
  moreover have "\<exists>y. overlap_step router ip ?z y \<and>
      shown_by y ((conn ?z)\<lparr>conn_session := read_tail (conn_session (conn ?z))\<rparr>)"
    by (rule tail_shown [where a = a]) (use x c in \<open>simp_all add: after_def handle_write_def\<close>)
  moreover have "(conn ?z)\<lparr>conn_session := read_tail (conn_session (conn ?z))\<rparr> =
      after (Async_write str) (handle_write True (conn_session c) (conn_world c)) c"
    unfolding x(5) by (simp add: after_def handle_write_def)
  ultimately show "\<exists>y. (overlap_step router ip)\<^sup>*\<^sup>* x y \<and> shown_by y
      (after (Async_write str) (handle_write True (conn_session c) (conn_world c)) c)"
    by (metis converse_rtranclp_into_rtranclp rtranclp.rtrancl_refl)
qed



section \<open>The string of a response\<close>

definition overlap_ok :: "overlapped \<Rightarrow> bool" where
  "overlap_ok x \<longleftrightarrow>
     world_ok (conn_world (conn x)) \<and> length (pending (conn x)) \<le> 1 \<and>
     (crash (conn x) \<noteq> None \<longrightarrow> pending (conn x) = []) \<and>
     distinct (tails x) \<and> (\<forall>a \<in> set (tails x). a < length (objects x)) \<and>
     (\<forall>str. Async_write str \<in> set (pending (conn x)) \<longrightarrow>
        (\<exists>a. source x = Some a \<and> a < length (objects x) \<and>
           objects x ! a = (if a \<in> set (tails x) then Live str else Destroyed)))"

lemma begin_write_simps [simp]:
  "conn (begin_write ops x) = conn x" "undefined_read (begin_write ops x) = undefined_read x"
  by (cases "(ops, x)" rule: begin_write.cases; simp)+

lemma overlap_ok_step: "overlap_step router ip x y \<Longrightarrow> overlap_ok x \<Longrightarrow> overlap_ok y"
proof (induction rule: overlap_step.induct)
  case (head_read x bytes h)
  have w: "world_ok (conn_world (conn x))" using head_read(7) by (simp add: overlap_ok_def)
  have p: "pending (conn x) = [Async_read_some]"
    using head_read(3,7) by (cases "pending (conn x)") (auto simp: overlap_ok_def)
  let ?g = "handle_read router False bytes ip (conn_session (conn x)) (conn_world (conn x))"
  have "handled_ok ?g" by (rule handled_ok_read [OF w])
  with head_and_tail [OF w refl, of router bytes ip "conn_session (conn x)"] head_read(6,7) p
  show ?case
    by (auto simp: overlap_ok_def after_def handled_ok_def nth_append less_Suc_eq split: option.splits)
next
  case (head_failed x h)
  then show ?case
    by (cases "pending (conn x)") (auto simp: overlap_ok_def after_def handle_read_def)
next
  case (tail_ends x a)
  have "\<exists>b. source x = Some b \<and> b < length (objects x) \<and>
      (objects x)[a := Destroyed] ! b = (if b \<in> set (remove1 a (tails x)) then Live str else Destroyed)"
    if str: "Async_write str \<in> set (pending (conn x))" for str
  proof -
    obtain b where "source x = Some b" "b < length (objects x)"
      "objects x ! b = (if b \<in> set (tails x) then Live str else Destroyed)"
      using tail_ends(4) str by (auto simp: overlap_ok_def)
    with tail_ends(4) show ?thesis by (cases "b = a") (auto simp: overlap_ok_def)
  qed
  with tail_ends show ?case by (auto simp: overlap_ok_def)
next
  case (write_sent x str a h)
  then show ?case
    by (cases "pending (conn x)") (auto simp: overlap_ok_def after_def handle_write_def)
next
  case (write_lost x str h)
  then show ?case
    by (cases "pending (conn x)") (auto simp: overlap_ok_def after_def handle_write_def)
qed (auto simp: overlap_ok_def)

lemma overlap_ok_reachable:
  assumes "world_ok w" "overlap_reachable router ip w x"
  shows "overlap_ok x"
  using assms(2) unfolding overlap_reachable_def
proof (induction rule: rtranclp_induct)
  case base
  from assms(1) show ?case by (simp add: overlap_ok_def alone_def open_connection_def start_def)
qed (rule overlap_ok_step)

text \<open>
  C11: a response is written from a destroyed string unless the write is quick. Whenever a write is pending, it
  reads from the string \<open>response_str\<close> of the handler that has started it. While that handler has
  not returned, the string is there, the client can be sent the response and nothing is
  undefined; once it has returned, the only way to go on with the write is to read the destroyed string, which is
  undefined behaviour, and the client cannot be sent anything.
\<close>

theorem write_needs_its_handler:
  assumes "world_ok w" "overlap_reachable router ip w x" "\<not> undefined_read x"
    and "Async_write str \<in> set (pending (conn x))"
  shows "\<exists>a. source x = Some a \<and>
    (if a \<in> set (tails x)
     then (\<exists>y. overlap_step router ip x y \<and> sent (conn y) = sent (conn x) @ [str]) \<and>
       (\<forall>y. overlap_step router ip x y \<longrightarrow> \<not> undefined_read y)
     else (\<exists>y. overlap_step router ip x y \<and> undefined_read y) \<and>
       (\<forall>y. overlap_step router ip x y \<longrightarrow> sent (conn y) = sent (conn x)))"
proof -
  have ok: "overlap_ok x" by (rule overlap_ok_reachable [OF assms(1,2)])
  then have calm: "crash (conn x) = None" using assms(4) by (auto simp: overlap_ok_def)
  have p: "pending (conn x) = [Async_write str]"
    using ok assms(4) by (cases "pending (conn x)") (auto simp: overlap_ok_def)
  obtain a where a: "source x = Some a" "objects x ! a = (if a \<in> set (tails x) then Live str else Destroyed)"
    using ok assms(4) by (auto simp: overlap_ok_def)
  show ?thesis
  proof (cases "a \<in> set (tails x)")
    case True
    with a have live: "objects x ! a = Live str" by simp
    have "\<not> undefined_read y" if "overlap_step router ip x y" for y
      using that by (cases rule: overlap_step.cases) (use assms(3) a(1) live p in auto)
    with True a(1) write_sent [OF assms(3) calm assms(4) a(1) live refl, of router ip] show ?thesis by force
  next
    case False
    with a have gone: "objects x ! a = Destroyed" by simp
    have "sent (conn y) = sent (conn x)" if "overlap_step router ip x y" for y
      using that by (cases rule: overlap_step.cases) (use a(1) gone p in \<open>auto simp: after_def\<close>)
    with False a(1) write_undefined [OF assms(3) calm assms(4) a(1) gone, of router ip] show ?thesis by force
  qed
qed

text \<open>A connection that reads a whole request: what the head of the handler leaves.\<close>

definition answering_with :: "string \<Rightarrow> string \<Rightarrow> world \<Rightarrow> overlapped \<Rightarrow> overlapped" where
  "answering_with buf str w x =
     x\<lparr>conn := (conn x)\<lparr>conn_session := \<lparr>buffer = buf\<rparr>, conn_world := w, pending := [Async_write str], crash := None\<rparr>,
       objects := objects x @ [Live str], source := Some (length (objects x)),
       tails := tails x @ [length (objects x)]\<rparr>"

lemma head_answers:
  assumes "\<not> undefined_read x" "crash (conn x) = None" "pending (conn x) = [Async_read_some]"
    and "bytes \<noteq> []" "length bytes \<le> max_length" "whole_request (buffer (conn_session (conn x)) @ bytes)"
    and "world_ok (conn_world (conn x))"
    and "response_of router (parse (buffer (conn_session (conn x)) @ bytes)) (conn_world (conn x)) = (Inr r, w')"
  shows "\<exists>str. convert_to_string r = Inr str \<and> world_ok w' \<and>
    overlap_step router ip x (answering_with (buffer (conn_session (conn x)) @ bytes) str w' x)"
proof -
  let ?s = "conn_session (conn x)" and ?w = "conn_world (conn x)"
  let ?buf = "buffer ?s @ bytes"
  have whole: "handle_read router False bytes ip ?s ?w = handle_read router False ?buf ip make_session ?w"
    by (rule handle_read_buffer)
  obtain str where str: "convert_to_string r = Inr str"
    "world_after (handle_read router False ?buf ip make_session ?w) = w'"
    "started (handle_read router False ?buf ip make_session ?w) = [Async_write str]"
    "raised (handle_read router False ?buf ip make_session ?w) = None"
    using whole_request_served [OF assms(6,7) _ assms(8), of make_session ip] by (auto simp: make_session_def)
  have "begin_write [Async_write str]
      (x\<lparr>conn := after Async_read_some (read_head router bytes ip ?s ?w) (conn x)\<rparr>) =
      answering_with ?buf str w' x"
    using assms(3) str whole by (cases "conn x") (simp add: answering_with_def after_def)
  with head_read [OF assms(1,2) _ assms(4,5) refl, of router ip] assms(3) str whole
  have "overlap_step router ip x (answering_with ?buf str w' x)" by simp
  moreover have "world_ok w'"
    using handled_ok_read [OF assms(7), of router ?buf ip make_session] str(2) by (simp add: handled_ok_def)
  ultimately show ?thesis using str(1) by blast
qed

lemma answer_sent:
  assumes "\<not> undefined_read x"
  shows "overlap_step router ip (answering_with buf str w x)
    ((answering_with buf str w x)
       \<lparr>conn := (conn (answering_with buf str w x))\<lparr>pending := [Async_read_some], sent := sent (conn x) @ [str]\<rparr>,
        source := None\<rparr>)"
  using write_sent [of "answering_with buf str w x" str "length (objects x)" _ router ip] assms
  by (cases "conn x") (simp add: answering_with_def after_def handle_write_def)

lemma tails_end:
  assumes "\<not> undefined_read x" "crash (conn x) = None" "tails x = [a, b]"
  shows "\<exists>y. (overlap_step router ip)\<^sup>*\<^sup>* x y \<and> tails y = [] \<and> undefined_read y = undefined_read x \<and>
    conn y = (conn x)\<lparr>conn_session := read_tail (conn_session (conn x))\<rparr>"
proof -
  let ?y = "x\<lparr>conn := (conn x)\<lparr>conn_session := read_tail (conn_session (conn x))\<rparr>,
    objects := (objects x)[a := Destroyed], tails := remove1 a (tails x)\<rparr>"
  let ?z = "?y\<lparr>conn := (conn ?y)\<lparr>conn_session := read_tail (conn_session (conn ?y))\<rparr>,
    objects := (objects ?y)[b := Destroyed], tails := remove1 b (tails ?y)\<rparr>"
  have "overlap_step router ip x ?y" by (rule tail_ends) (use assms in simp_all)
  moreover have "overlap_step router ip ?y ?z" by (rule tail_ends) (use assms in simp_all)
  ultimately have "(overlap_step router ip)\<^sup>*\<^sup>* x ?z"
    by (blast intro: converse_rtranclp_into_rtranclp)
  with assms(3) show ?thesis by (intro exI [of _ ?z]) (simp add: read_tail_def)
qed

section \<open>The next request is read into the old one\<close>

lemma whole_request_bytes:
  assumes "well_formed_head m p ''HTTP/1.1'' hs" "m \<in> set valid_methods" "hd p = CHR ''/''"
    and "find_header ''Content-Length'' (parsed_headers hs) = None"
    and "length (request_bytes m p ''HTTP/1.1'' hs c) \<le> max_length"
  shows "whole_request (request_bytes m p ''HTTP/1.1'' hs c)"
proof -
  have "contains end_of_head (request_bytes m p ''HTTP/1.1'' hs c)" by (rule request_bytes_head(3) [OF assms(1)])
  then have "request_bytes m p ''HTTP/1.1'' hs c \<noteq> []" by (auto simp: contains_def end_of_head_def)
  with valid_request_bytes [OF assms(1-3), of c] parse_request_bytes(6) [OF assms(1) refl, of c] assms(4,5)
  show ?thesis by (simp add: whole_request_def get_request_header_def)
qed

text \<open>
  C10: a client that is quick is misunderstood. A client sends a request, is sent the answer and sends the next
  one; when the handler of the first has not yet cleared \<open>buffer_\<close>, the bytes of the second
  are appended to the first, and the session handles the first request once more, with the second as
  its body. The client gets a second answer to its first request, and nothing of the second is left.
\<close>

theorem late_clear_repeats_request:
  assumes "\<not> undefined_read x" "crash (conn x) = None" "idle (conn x)" "tails x = []" "world_ok (conn_world (conn x))"
    and "well_formed_head m p ''HTTP/1.1'' hs" "m \<in> set valid_methods" "hd p = CHR ''/''"
    and "find_header ''Content-Length'' (parsed_headers hs) = None"
    and "first = request_bytes m p ''HTTP/1.1'' hs b" "second \<noteq> []" "length (first @ second) \<le> max_length"
    and "response_of router (parse first) (conn_world (conn x)) = (Inr r1, w1)"
    and "response_of router (parse (first @ second)) w1 = (Inr r2, w2)"
  shows "method (parse (first @ second)) = m \<and> path (parse (first @ second)) = p \<and>
    body (parse (first @ second)) = chomp (b @ second) \<and>
    (\<exists>y str1 str2. (overlap_step router ip)\<^sup>*\<^sup>* x y \<and> \<not> undefined_read y \<and> tails y = [] \<and>
       convert_to_string r1 = Inr str1 \<and> convert_to_string r2 = Inr str2 \<and>
       sent (conn y) = sent (conn x) @ [str1, str2] \<and> idle (conn y) \<and> conn_world (conn y) = w2)"
proof -
  have both: "first @ second = request_bytes m p ''HTTP/1.1'' hs (b @ second)"
    by (simp add: assms(10) request_bytes_append)
  have parsed: "method (parse (first @ second)) = m \<and> path (parse (first @ second)) = p \<and>
    body (parse (first @ second)) = chomp (b @ second)"
    using parse_request_bytes [OF assms(6) both] by simp
  note whole = whole_request_bytes [OF assms(6-9)]
  have p: "pending (conn x) = [Async_read_some]" "buffer (conn_session (conn x)) = []"
    using assms(3) by (simp_all add: idle_def)
  have first: "first \<noteq> []" "length first \<le> max_length" "whole_request first"
    using whole [of b] assms(10,12) by (simp_all add: whole_request_def)
  have joined: "whole_request (first @ second)" using whole [of "b @ second"] assms(12) by (simp add: both)
  have len: "length second \<le> max_length" using assms(12) by simp
  obtain str1 where h1: "convert_to_string r1 = Inr str1" "world_ok w1"
    "overlap_step router ip x (answering_with first str1 w1 x)"
    using head_answers [OF assms(1,2) p(1) first(1,2) _ assms(5), of router r1 w1 ip] first(3) assms(13) p(2) by auto
  let ?x2 = "(answering_with first str1 w1 x)
    \<lparr>conn := (conn (answering_with first str1 w1 x))\<lparr>pending := [Async_read_some], sent := sent (conn x) @ [str1]\<rparr>,
     source := None\<rparr>"
  note sent1 = answer_sent [OF assms(1), of router ip first str1 w1]
  have x2: "\<not> undefined_read ?x2" "crash (conn ?x2) = None" "pending (conn ?x2) = [Async_read_some]"
    "buffer (conn_session (conn ?x2)) = first" "conn_world (conn ?x2) = w1"
    "sent (conn ?x2) = sent (conn x) @ [str1]" "tails ?x2 = [length (objects x)]"
    "objects ?x2 = objects x @ [Live str1]"
    using assms(1,4) by (simp_all add: answering_with_def)
  obtain str2 where h2: "convert_to_string r2 = Inr str2"
    "overlap_step router ip ?x2 (answering_with (first @ second) str2 w2 ?x2)"
    using head_answers [OF x2(1-3) assms(11) len, of router r2 w2 ip] joined h1(2) assms(14)
    unfolding x2(4,5) by blast
  let ?x3 = "answering_with (first @ second) str2 w2 ?x2"
  let ?x4 = "?x3\<lparr>conn := (conn ?x3)\<lparr>pending := [Async_read_some], sent := sent (conn ?x2) @ [str2]\<rparr>, source := None\<rparr>"
  note sent2 = answer_sent [OF x2(1), of router ip "first @ second" str2 w2]
  have "tails ?x4 = tails ?x2 @ [length (objects ?x2)]" "undefined_read ?x4 = undefined_read ?x2"
    "conn ?x4 = (conn ?x2)\<lparr>conn_session := \<lparr>buffer = first @ second\<rparr>, conn_world := w2, crash := None,
      pending := [Async_read_some], sent := sent (conn ?x2) @ [str2]\<rparr>"
    by (simp_all add: answering_with_def [of _ _ _ ?x2])
  then have x4: "tails ?x4 = [length (objects x), Suc (length (objects x))]" "\<not> undefined_read ?x4"
    "conn_world (conn ?x4) = w2" "crash (conn ?x4) = None" "pending (conn ?x4) = [Async_read_some]"
    "sent (conn ?x4) = sent (conn x) @ [str1, str2]"
    using x2 by simp_all
  obtain y where y: "(overlap_step router ip)\<^sup>*\<^sup>* ?x4 y" "tails y = []" "undefined_read y = undefined_read ?x4"
    "conn y = (conn ?x4)\<lparr>conn_session := read_tail (conn_session (conn ?x4))\<rparr>"
    using tails_end [OF x4(2,4,1)] by blast
  have "(overlap_step router ip)\<^sup>*\<^sup>* x y"
    using h1(3) sent1 h2(2) sent2 y(1) by (meson converse_rtranclp_into_rtranclp)
  with h1(1) h2(1) y(2-4) x4
  have "\<exists>y str1 str2. (overlap_step router ip)\<^sup>*\<^sup>* x y \<and> \<not> undefined_read y \<and> tails y = [] \<and>
       convert_to_string r1 = Inr str1 \<and> convert_to_string r2 = Inr str2 \<and>
       sent (conn y) = sent (conn x) @ [str1, str2] \<and> idle (conn y) \<and> conn_world (conn y) = w2"
    by (intro exI [of _ y] exI [of _ str1] exI [of _ str2]) (simp add: idle_def read_tail_def)
  with parsed show ?thesis by simp
qed

text \<open>The first connection of a server, and a handler that has returned before its response is written.\<close>

lemma alone_open:
  "conn (alone (open_connection w)) = open_connection w" "tails (alone (open_connection w)) = []"
  "\<not> undefined_read (alone (open_connection w))" "objects (alone (open_connection w)) = []"
  "pending (open_connection w) = [Async_read_some]" "crash (open_connection w) = None"
  "buffer (conn_session (open_connection w)) = []" "conn_world (open_connection w) = w"
  "sent (open_connection w) = []"
  by (simp_all add: alone_def open_connection_def start_def make_session_def)

theorem write_needs_its_handler_witness:
  "\<exists>x. overlap_reachable health_routes None example_world x \<and> \<not> undefined_read x \<and>
     (\<exists>y. overlap_step health_routes None x y \<and> undefined_read y) \<and>
     (\<forall>y. overlap_step health_routes None x y \<longrightarrow> sent (conn y) = sent (conn x))"
proof -
  let ?o = "alone (open_connection example_world)"
  note o = alone_open [of example_world]
  have whole: "whole_request health_bytes" "health_bytes \<noteq> []" "length health_bytes \<le> max_length" by code_simp+
  obtain str where head: "overlap_step health_routes None ?o (answering_with health_bytes str example_world ?o)"
    using head_answers [OF o(3), of health_bytes health_routes _ _ None] o whole world_ok_example health_response
    by (auto simp del: max_length_def)
  let ?x = "answering_with health_bytes str example_world ?o"
  let ?y = "?x\<lparr>conn := (conn ?x)\<lparr>conn_session := read_tail (conn_session (conn ?x))\<rparr>,
    objects := (objects ?x)[0 := Destroyed], tails := remove1 0 (tails ?x)\<rparr>"
  have "overlap_step health_routes None ?x ?y"
    by (rule tail_ends) (simp_all add: answering_with_def o)
  with head have r: "overlap_reachable health_routes None example_world ?y"
    unfolding overlap_reachable_def by (blast intro: converse_rtranclp_into_rtranclp)
  have y: "\<not> undefined_read ?y" "Async_write str \<in> set (pending (conn ?y))" "source ?y = Some 0" "tails ?y = []"
    by (simp_all add: answering_with_def o)
  from write_needs_its_handler [OF world_ok_example r y(1,2)] y(3,4) have
    "(\<exists>z. overlap_step health_routes None ?y z \<and> undefined_read z) \<and>
     (\<forall>z. overlap_step health_routes None ?y z \<longrightarrow> sent (conn z) = sent (conn ?y))"
    by simp
  with r y(1) show ?thesis by blast
qed

theorem late_clear_repeats_request_witness:
  "\<exists>y str. (overlap_step health_routes None)\<^sup>*\<^sup>* (alone (open_connection example_world)) y \<and>
     convert_to_string (reply 200 ''OK'' ''text/plain'' ''OK'') = Inr str \<and> sent (conn y) = [str, str] \<and> idle (conn y) \<and>
     path (parse (health_bytes @ ''GET /other HTTP/1.1'' @ end_of_head)) = ''/health''"
proof -
  let ?o = "alone (open_connection example_world)" and ?second = "''GET /other HTTP/1.1'' @ end_of_head"
  note o = alone_open [of example_world]
  have o': "\<not> undefined_read ?o" "crash (conn ?o) = None" "idle (conn ?o)" "tails ?o = []"
    "world_ok (conn_world (conn ?o))"
    by (simp_all add: o idle_def world_ok_example)
  have head: "well_formed_head ''GET'' ''/health'' ''HTTP/1.1'' []"
    "find_header ''Content-Length'' (parsed_headers []) = None" "''GET'' \<in> set valid_methods" by code_simp+
  have first: "health_bytes = request_bytes ''GET'' ''/health'' ''HTTP/1.1'' [] []" by code_simp
  have len: "?second \<noteq> []" "length (health_bytes @ ?second) \<le> max_length" by code_simp+
  have path: "path (parse (health_bytes @ ?second)) = ''/health''" by code_simp
  have "best_route health_routes ''/health'' = ''/health''" by code_simp
  then have "match_handler (files example_world) health_routes ''/health'' = Inr (Some HealthHandler)"
    unfolding match_handler_def by (simp add: health_routes_def create_handler_def)
  then have again: "response_of health_routes (parse (health_bytes @ ?second)) example_world =
      (Inr (reply 200 ''OK'' ''text/plain'' ''OK''), example_world)"
    using path by (simp add: response_of_def health_handle_request_def)
  have now: "response_of health_routes (parse health_bytes) (conn_world (conn ?o)) =
      (Inr (reply 200 ''OK'' ''text/plain'' ''OK''), example_world)"
    by (simp add: o health_response)
  from late_clear_repeats_request [OF o' head(1,3) _ head(2) first len now again, of None]
  obtain y str1 str2 where "(overlap_step health_routes None)\<^sup>*\<^sup>* ?o y" "idle (conn y)"
    "convert_to_string (reply 200 ''OK'' ''text/plain'' ''OK'') = Inr str1"
    "convert_to_string (reply 200 ''OK'' ''text/plain'' ''OK'') = Inr str2" "sent (conn y) = [] @ [str1, str2]"
    unfolding o by auto
  with path show ?thesis by auto
qed

end
