(* ===== verification/Site_Served.thy ===== *)
theory Site_Served
  imports Fair_Runs Static_Site
begin

text \<open>
  A static route of the running server: \<open>Static_Site\<close> behind the event loop, the other connections and
  a file system that changes while requests are served.
\<close>

text \<open>The answer for a target at one moment, and a site that can be read at that moment.\<close>

definition site_now :: "string \<Rightarrow> string set \<Rightarrow> string list \<Rightarrow> system \<Rightarrow> http_response" where
  "site_now r exts parts s = site_answer exts parts (node_at (files (shared s)) (in_site r parts))"

definition site_up :: "handler_config \<Rightarrow> string \<Rightarrow> string set \<Rightarrow> string list \<Rightarrow> system \<Rightarrow> bool" where
  "site_up c r exts parts s \<longleftrightarrow>
     static_config (files (shared s)) c r exts \<and>
     succeeds (os_exists (files (shared s)) (in_site r parts)) \<and>
     succeeds (os_is_regular_file (files (shared s)) (in_site r parts)) \<and>
     length (message_body (site_now r exts parts s)) < 2 ^ 64"

lemma client_reads:
  assumes "world_ok w" "response_of router q w = (Inr r, w')" "convert_to_string r = Inr str"
    and "length (message_body r) < 2 ^ 64"
  shows "\<exists>sc. status_code r = Some sc \<and>
    (\<forall>rest. client_receive (str @ rest) = Some (status_line r sc, headers_map r, message_body r, rest))"
proof -
  have "sendable r" by (rule response_of_sendable [OF assms(1,2)])
  then obtain sc where ok: "response_ok r" "status_code r = Some sc" "clean_response r"
    by (auto simp: sendable_def)
  from clean_reply_framing [OF ok assms(4)] assms(3) ok(2) show ?thesis by auto
qed



end
