(* ===== verification/Server_Main.thy ===== *)
theory Server_Main
  imports Server
begin

text \<open>
  The two programs (src/server_main.cc, src/config_parser_main.cc). \<open>main\<close> either exits or reaches the
  event loop, which is where the model stops; \<open>acceptor_error\<close> is what Boost.Asio raises when it
  cannot bind the port, if anything. Files are a partial map from names to contents. \<open>main_stdout\<close> is
  the trace that the configuration parser prints and \<open>main_stderr\<close> the messages on standard error;
  what Boost.Log writes to the console is left to \<open>main_log\<close>.
\<close>

datatype main_end =
    Exits int
  | Serves server nat

record main_run =
  main_end :: main_end
  main_log :: "log_record list"
  main_stdout :: string
  main_stderr :: string

definition usage_line :: string where
  "usage_line = ''Usage: async_tcp_echo_server <config_file>'' @ [LF]"

definition thread_count :: "nat \<Rightarrow> nat" where
  "thread_count hardware_concurrency =
     (let detected = (if hardware_concurrency = 0 then 1 else hardware_concurrency) in max 4 detected)"

definition server_main ::
  "string list \<Rightarrow> (string \<Rightarrow> string option) \<Rightarrow> nat \<Rightarrow> (16 word \<Rightarrow> cpp_error option) \<Rightarrow>
     main_run outcome" where
  "server_main argv open_file hardware_concurrency acceptor_error =
     (if length argv \<noteq> 2
      then Inr \<lparr>main_end = Exits 1, main_log = [logErrorFile ''wrong usage server config is needed''],
             main_stdout = [], main_stderr = usage_line\<rparr>
      else
        (let out = parse_file_output open_file (argv ! 1) (NginxConfig [])
         in andThen (parse_file open_file (argv ! 1) (NginxConfig [])) (\<lambda>(parsed, config).
          if \<not> parsed
          then Inr \<lparr>main_end = Exits (- 1), main_log = [logErrorFile ''Failed to parse config file''],
                 main_stdout = out, main_stderr = []\<rparr>
          else
            (let err = load_stderr (statements config)
             in andThen (load_from_nginx_config config default_server_config) (\<lambda>(loaded, sc).
              if \<not> loaded
              then Inr \<lparr>main_end = Exits (- 1), main_log = [logErrorFile ''Invalid server configuration''],
                     main_stdout = out, main_stderr = err\<rparr>
              else (case acceptor_error (server_port (port sc)) of
                      Some e \<Rightarrow>
                        Inr \<lparr>main_end = Exits 0, main_log = [], main_stdout = out,
                          main_stderr = err @ ''Exception: '' @ what e @ [LF]\<rparr>
                    | None \<Rightarrow>
                        Inr \<lparr>main_end =
                            Serves (make_server (server_port (port sc))) (thread_count hardware_concurrency),
                          main_log =
                            [logServerInitialization,
                             logTraceFile (''Starting server on port: '' @ to_string_int (port sc)),
                             logTraceFile (''Starting '' @
                               to_string_nat (thread_count hardware_concurrency) @ '' worker threads'')],
                          main_stdout = out, main_stderr = err\<rparr>))))))"

text \<open>
  \<open>config_parser\<close>: the exit code and the standard output, which holds the trace of the parser and then
  the serialised configuration, whether it was parsed or not.
\<close>

definition config_parser_main ::
  "string list \<Rightarrow> (string \<Rightarrow> string option) \<Rightarrow> (int \<times> string) outcome" where
  "config_parser_main argv open_file =
     (if length argv \<noteq> 2
      then Inr (1, ''Usage: ./config_parser <path to config file>'' @ [LF])
      else
        andThen (parse_file open_file (argv ! 1) (NginxConfig [])) (\<lambda>(parsed, config).
          Inr (0, parse_file_output open_file (argv ! 1) (NginxConfig []) @
                  c_str (config_to_string 0 config))))"

section \<open>When the server runs\<close>

lemma parse_file_total: "\<exists>ok c. parse_file open_file f config = Inr (ok, c)"
  using parse_stream_total by (auto simp: parse_file_def split: option.split)

lemma parse_file_ok:
  "parse_file open_file f config = Inr (True, c) \<longleftrightarrow>
     (\<exists>text. open_file f = Some text \<and> parse_stream text config = Inr (True, c))"
  by (auto simp: parse_file_def split: option.split)

lemma thread_count_eq: "thread_count n = max 4 n"
  by (simp add: thread_count_def)

text \<open>What it takes to reach the event loop.\<close>

definition configured ::
  "string list \<Rightarrow> (string \<Rightarrow> string option) \<Rightarrow> server_config \<Rightarrow> bool" where
  "configured argv open_file sc \<longleftrightarrow>
     length argv = 2 \<and>
     (\<exists>text c. open_file (argv ! 1) = Some text \<and> parse_stream text (NginxConfig []) = Inr (True, c) \<and>
        load_from_nginx_config c default_server_config = Inr (True, sc))"

lemma server_main_cases:
  obtains (stops) n logs out err where
      "server_main argv open_file hw acc =
        Inr \<lparr>main_end = Exits n, main_log = logs, main_stdout = out, main_stderr = err\<rparr>"
      "(n :: int) \<noteq> 0" "\<And>sc. \<not> configured argv open_file sc"
  | (unbound) sc e out where "configured argv open_file sc" "acc (server_port (port sc)) = Some e"
      "server_main argv open_file hw acc =
        Inr \<lparr>main_end = Exits 0, main_log = [], main_stdout = out,
          main_stderr = ''Exception: '' @ what e @ [LF]\<rparr>"
  | (runs) sc logs out where "configured argv open_file sc" "acc (server_port (port sc)) = None"
      "server_main argv open_file hw acc =
        Inr \<lparr>main_end = Serves (make_server (server_port (port sc))) (max 4 hw),
          main_log = logs, main_stdout = out, main_stderr = []\<rparr>"
proof (cases "length argv = 2")
  case False
  then show thesis
    by (intro stops) (simp add: server_main_def, simp, simp add: configured_def)
next
  case True
  obtain parsed c where p: "parse_file open_file (argv ! 1) (NginxConfig []) = Inr (parsed, c)"
    using parse_file_total by blast
  show thesis
  proof (cases parsed)
    case False
    with p True have "\<not> configured argv open_file sc" for sc
      using parse_file_ok [of open_file "argv ! 1" "NginxConfig []"] by (auto simp: configured_def)
    with False p True show thesis by (intro stops) (simp add: server_main_def Let_def, simp, simp)
  next
    case parsed: True
    then have "parse_file open_file (argv ! 1) (NginxConfig []) = Inr (True, c)"
      using p by simp
    then obtain contents where t: "open_file (argv ! 1) = Some contents"
      "parse_stream contents (NginxConfig []) = Inr (True, c)"
      unfolding parse_file_ok by (elim exE conjE)
    obtain loaded sc where l: "load_from_nginx_config c default_server_config = Inr (loaded, sc)"
      using load_parsed_total [OF t(2)] by blast
    show thesis
    proof (cases loaded)
      case False
      with t l have "\<not> configured argv open_file sc'" for sc' by (auto simp: configured_def)
      with False True p l parsed show thesis by (intro stops) (simp add: server_main_def Let_def, simp, simp)
    next
      case loaded: True
      then have conf: "configured argv open_file sc" using True t l by (auto simp: configured_def)
      have quiet: "load_stderr (statements c) = []"
        using load_quiet [of "statements c"] l loaded by (simp add: load_from_nginx_config_def)
      show thesis
      proof (cases "acc (server_port (port sc))")
        case None
        show thesis
          by (rule runs [OF conf None]) (simp add: server_main_def Let_def True p parsed l loaded None thread_count_eq quiet del: One_nat_def)
      next
        case (Some e)
        show thesis
          by (rule unbound [OF conf Some]) (simp add: server_main_def Let_def True p parsed l loaded Some quiet del: One_nat_def)
      qed
    qed
  qed
qed

lemma configured_unique: "configured argv open_file sc \<Longrightarrow> configured argv open_file sc' \<Longrightarrow> sc = sc'"
  by (auto simp: configured_def)

lemma configured_positive:
  assumes "configured argv open_file sc"
  shows "port sc > 0 \<and> Server_Config.routes sc \<noteq> []"
  using assms by (auto simp: configured_def load_from_nginx_config_def dest: load_positive)

text \<open>
  C36: \<open>main\<close> has no undefined behaviour. It reaches the event loop exactly when there is one argument, the
  file it names opens and parses, the configuration loads and the port can be bound; the server then
  has a positive configured port, at least one route, one pending accept and at least four threads.
  An exit with code 0 means that binding raised: a failure to start is reported as success.
\<close>

theorem server_main_outcomes:
  "\<exists>r. server_main argv open_file hw acc = Inr r \<and>
    (\<forall>sv n. main_end r = Serves sv n \<longleftrightarrow>
       (\<exists>sc. configured argv open_file sc \<and> acc (server_port (port sc)) = None \<and>
          port sc > 0 \<and> Server_Config.routes sc \<noteq> [] \<and>
          sv = make_server (server_port (port sc)) \<and> n = max 4 hw)) \<and>
    (main_end r = Exits 0 \<longleftrightarrow>
       (\<exists>sc. configured argv open_file sc \<and> acc (server_port (port sc)) \<noteq> None))"
proof (cases rule: server_main_cases [of argv open_file hw acc])
  case (stops n logs err)
  then show ?thesis by simp
next
  case (unbound sc e)
  have eq: "configured argv open_file sc' \<longleftrightarrow> sc' = sc" for sc'
    using unbound(1) configured_unique [OF unbound(1), of sc'] by auto
  show ?thesis by (simp add: unbound(2,3) eq)
next
  case (runs sc logs)
  have eq: "configured argv open_file sc' \<longleftrightarrow> sc' = sc" for sc'
    using runs(1) configured_unique [OF runs(1), of sc'] by auto
  show ?thesis
    using configured_positive [OF runs(1)] by (auto simp: runs(2,3) eq)
qed

section \<open>What the parser program prints\<close>

definition token_trace :: "string \<Rightarrow> string" where
  "token_trace input = concat (map (\<lambda>(tt, tok). token_line tt tok) (lex input))"

lemma parse_stream_trace:
  assumes "parse_stream input config = Inr (True, c)"
  shows "parse_stream_output input config = token_trace input"
proof -
  obtain st where "parse_loop (parse_start config) input = Inr (True, st)"
    using assms by (auto simp: parse_stream_def andThen_eq_Inr)
  then show ?thesis
    using run_tokens_trace [of "parse_start config" input st]
    by (simp add: parse_stream_output_def token_trace_def parse_loop_lex parse_start_def)
qed

text \<open>
  \<open>config_parser\<close> on a file that can be read prints the trace of the parser and then the tree in
  canonical form, and exits with 0 whether the file parsed or not. When it parsed, the trace is one
  line per token of the file, and the canonical text, if it holds no NUL, is printed whole and is
  itself accepted as the same tree.
\<close>

theorem config_parser_main_output:
  assumes "open_file f = Some input"
  shows "\<exists>ok c. parse_stream input (NginxConfig []) = Inr (ok, c) \<and>
    config_parser_main [prog, f] open_file =
      Inr (0, parse_stream_output input (NginxConfig []) @ c_str (config_to_string 0 c)) \<and>
    (ok \<longrightarrow> parse_stream_output input (NginxConfig []) = token_trace input \<and>
      (CHR 0x00 \<notin> set (config_to_string 0 c) \<longrightarrow>
        parse_stream (c_str (config_to_string 0 c)) (NginxConfig []) = Inr (True, c)))"
proof -
  obtain ok c where p: "parse_stream input (NginxConfig []) = Inr (ok, c)"
    using parse_stream_total by blast
  then have "config_parser_main [prog, f] open_file =
      Inr (0, parse_stream_output input (NginxConfig []) @ c_str (config_to_string 0 c))"
    using assms by (simp add: config_parser_main_def parse_file_def parse_file_output_def)
  with p show ?thesis
    using parse_stream_trace [of input "NginxConfig []" c] canonical_parses [of input c]
    by (intro exI [of _ ok] exI [of _ c]) (auto simp: c_str_id)
qed

theorem config_parser_main_output_witness:
  "\<exists>ok c. parse_stream ''listen 80;'' (NginxConfig []) = Inr (ok, c) \<and>
    config_parser_main [''config_parser'', ''a.conf''] [''a.conf'' \<mapsto> ''listen 80;''] =
      Inr (0, parse_stream_output ''listen 80;'' (NginxConfig []) @ c_str (config_to_string 0 c))"
  using config_parser_main_output [of "[''a.conf'' \<mapsto> ''listen 80;'']" "''a.conf''" "''listen 80;''" "''config_parser''"]
  by auto

end
