(* ===== verification/Message_Types.thy ===== *)
theory Message_Types
  imports Request_Boundaries
begin

text \<open>
  What is always true of the values that the components hand to each other, whatever the input: a parsed
  request, a loaded configuration, and the response of a handler.
\<close>

section \<open>Requests\<close>

definition header_typed :: "string \<times> string \<Rightarrow> bool" where
  "header_typed = (\<lambda>(n, v). CHR '':'' \<notin> set n \<and> LF \<notin> set n \<and> LF \<notin> set v \<and> trim v = v)"

definition query_typed :: "string \<times> string \<Rightarrow> bool" where
  "query_typed = (\<lambda>(k, v). CHR ''='' \<notin> set k \<and> CHR ''&'' \<notin> set k \<and> CHR ''&'' \<notin> set v)"

definition request_typed :: "http_request \<Rightarrow> bool" where
  "request_typed q \<longleftrightarrow>
     list_all (\<lambda>c. \<not> isspace c) (method q @ path q @ http_version q) \<and>
     base_path q = takeWhile (\<lambda>c. c \<noteq> CHR ''?'') (path q) \<and>
     map_ok (headers q) \<and> list_all header_typed (headers q) \<and>
     map_ok (query_params q) \<and> list_all query_typed (query_params q)"

lemma set_map_put: "set (map_put k v m) \<subseteq> insert (k, v) (set m)"
  by (induction k v m rule: map_put.induct) auto

lemma list_all_map_put: "list_all P m \<Longrightarrow> P (k, v) \<Longrightarrow> list_all P (map_put k v m)"
  using set_map_put [of k v m] by (auto simp: list_all_iff)

lemma set_trim: "set (trim s) \<subseteq> set s"
  using trim_split [of s] by (metis Un_upper1 Un_upper2 order_trans set_append)

lemma parse_header_line_typed:
  assumes "LF \<notin> set l" "map_ok m" "list_all header_typed m"
  shows "map_ok (parse_header_line l m) \<and> list_all header_typed (parse_header_line l m)"
proof (cases "str_find '':'' l")
  case (Some i)
  then have i: "CHR '':'' \<notin> set (take i l)" using str_find_char_Some [OF Some] by simp
  have "LF \<notin> set (take i l)" "LF \<notin> set (drop (i + 1) l)"
    using assms(1) by (auto dest: in_set_takeD in_set_dropD)
  then have "header_typed (take i l, trim (drop (i + 1) l))"
    using i set_trim [of "drop (i + 1) l"] by (auto simp: header_typed_def)
  with assms Some show ?thesis by (simp add: parse_header_line_def list_all_map_put)
next
  case None
  then have "parse_header_line l m = m" by (simp add: parse_header_line_def del: str_find_char_None)
  with assms show ?thesis by simp
qed

lemma strip_cr_set: "set (strip_cr l) \<subseteq> set l"
  by (auto simp: strip_cr_def dest: in_set_butlastD)

lemma parse_headers_typed:
  "map_ok m \<Longrightarrow> list_all header_typed m \<Longrightarrow>
     map_ok (fst (parse_headers m s)) \<and> list_all header_typed (fst (parse_headers m s))"
proof (induction m s rule: parse_headers.induct)
  case (1 m s)
  show ?case
  proof (cases "getline LF s")
    case None
    with 1 show ?thesis by (simp add: parse_headers.simps [of m s])
  next
    case (Some lr)
    obtain l rest where lr: "lr = (l, rest)" by (cases lr)
    have "getline LF s = Some (l, rest)" using Some lr by simp
    from getline_no_delim [OF this] have "LF \<notin> set (strip_cr l)" using strip_cr_set [of l] by blast
    from parse_header_line_typed [OF this "1.prems"] "1.IH" [OF Some lr [symmetric]] show ?thesis
      using Some lr "1.prems" by (simp add: parse_headers.simps [of m s])
  qed
qed

lemma parse_query_pair_typed:
  assumes "CHR ''&'' \<notin> set x" "map_ok m" "list_all query_typed m"
  shows "map_ok (parse_query_pair x m) \<and> list_all query_typed (parse_query_pair x m)"
proof (cases "str_find ''='' x")
  case (Some i)
  then have "CHR ''='' \<notin> set (take i x)" using str_find_char_Some [OF Some] by simp
  moreover have "CHR ''&'' \<notin> set (take i x)" "CHR ''&'' \<notin> set (drop (i + 1) x)"
    using assms(1) by (auto dest: in_set_takeD in_set_dropD)
  ultimately have "query_typed (take i x, drop (i + 1) x)" by (simp add: query_typed_def)
  with assms Some show ?thesis by (simp add: parse_query_pair_def list_all_map_put)
next
  case None
  then have "parse_query_pair x m = m" by (simp add: parse_query_pair_def del: str_find_char_None)
  with assms show ?thesis by simp
qed

lemma fold_query_typed:
  "\<forall>x \<in> set xs. CHR ''&'' \<notin> set x \<Longrightarrow> map_ok m \<Longrightarrow> list_all query_typed m \<Longrightarrow>
     map_ok (fold parse_query_pair xs m) \<and> list_all query_typed (fold parse_query_pair xs m)"
  by (induction xs arbitrary: m) (simp_all add: parse_query_pair_typed)

lemma parse_path_typed:
  assumes "map_ok (query_params r)" "list_all query_typed (query_params r)"
  shows "base_path (parse_path_and_query r) = takeWhile (\<lambda>c. c \<noteq> CHR ''?'') (path r) \<and>
    map_ok (query_params (parse_path_and_query r)) \<and>
    list_all query_typed (query_params (parse_path_and_query r))"
proof -
  have "\<forall>x \<in> set (getlines (CHR ''&'') t). CHR ''&'' \<notin> set x" for t
    using getlines_no_delim by fast
  note query = fold_query_typed [OF this assms]
  show ?thesis
  proof (cases "str_find ''?'' (path r)")
    case None
    with cut_at_char [where c = "CHR ''?''" and s = "path r"] assms show ?thesis
      by (simp add: parse_path_and_query_def del: str_find_char_None)
  next
    case (Some i)
    with cut_at_char [where c = "CHR ''?''" and s = "path r"] query show ?thesis
      by (simp add: parse_path_and_query_def Let_def)
  qed
qed

lemma parse_path_and_query_frame [simp]:
  "method (parse_path_and_query r) = method r" "path (parse_path_and_query r) = path r"
  "http_version (parse_path_and_query r) = http_version r" "headers (parse_path_and_query r) = headers r"
  "raw_request (parse_path_and_query r) = raw_request r"
  by (simp_all add: parse_path_and_query_def Let_def split: option.split)

lemma read_request_line_words_only:
  assumes "read_request_line s = Some (m, p, v, t)"
  shows "list_all (\<lambda>c. \<not> isspace c) (m @ p @ v)"
  using assms extract_word_Some
  by (fastforce simp: read_request_line_def list_all_iff split: option.splits)

lemma parse_typed: "request_typed (parse raw) \<and> raw_request (parse raw) = raw"
proof (cases "read_request_line raw")
  case None
  then show ?thesis by (simp add: parse_def request_typed_def empty_request_def)
next
  case (Some x)
  obtain m p v t where x: "x = (m, p, v, t)" by (cases x)
  let ?q = "empty_request\<lparr>raw_request := raw, method := m, path := p, http_version := v\<rparr>"
  let ?t = "case getline LF t of None \<Rightarrow> [] | Some (_, rest) \<Rightarrow> rest"
  have path: "base_path (parse_path_and_query ?q) = takeWhile (\<lambda>c. c \<noteq> CHR ''?'') p"
    "map_ok (query_params (parse_path_and_query ?q))"
    "list_all query_typed (query_params (parse_path_and_query ?q))"
    using parse_path_typed [of ?q] by (simp_all add: empty_request_def)
  have "headers ?q = []" by (simp add: empty_request_def)
  then have hs: "map_ok (fst (parse_headers (headers ?q) ?t))"
    "list_all header_typed (fst (parse_headers (headers ?q) ?t))"
    using parse_headers_typed [of "[]" ?t] by simp_all
  have words: "list_all (\<lambda>c. \<not> isspace c) (m @ p @ v)"
    by (rule read_request_line_words_only [of raw m p v t]) (simp add: Some x)
  show ?thesis
    using path hs words
    by (simp add: parse_def Some x request_typed_def Let_def case_prod_unfold)
qed

text \<open>
  What a parsed request is, whatever bytes it was parsed from: method, path and version hold no white
  space; the headers form an ordered map whose names hold no colon and no line feed and whose values
  are trimmed and hold no line feed; the base path is the path up to the first question mark and the
  query parameters form an ordered map of keys without \<open>=\<close> or \<open>&\<close>. So the line of metrics that the
  session logs for a request holds no line feed: a client cannot forge a second line.
\<close>

theorem parse_request_type:
  "request_typed (parse raw) \<and> raw_request (parse raw) = raw \<and>
   (clean hname \<longrightarrow> clean (client_ip_text ip) \<longrightarrow>
     LF \<notin> set (snd (response_metrics code (path (parse raw)) hname ip)))"
proof -
  have "list_all (\<lambda>c. \<not> isspace c) (path (parse raw))"
    using parse_typed [of raw] by (simp add: request_typed_def)
  then have "LF \<notin> set (path (parse raw))" by (auto simp: list_all_iff isspace_def)
  moreover have "LF \<notin> set (to_string_int code)"
    using clean_to_string_int [of code] by (simp add: clean_def)
  ultimately show ?thesis
    using parse_typed by (simp add: response_metrics_def logMachineParsable_def clean_def)
qed

theorem parse_request_type_witness:
  "LF \<notin> set (snd (response_metrics 400 (path (parse (''GET /'' @ [LF] @ ''x y'' @ [LF]))) ''EchoHandler'' None))"
  using parse_request_type [of "''GET /'' @ [LF] @ ''x y'' @ [LF]" "''EchoHandler''" None 400]
  by (simp add: clean_def client_ip_text_def)

section \<open>Responses\<close>

definition statuses :: "(int \<times> string) list" where
  "statuses =
     [(200, ''OK''), (201, ''Created''), (400, ''Bad Request''), (404, ''Not Found''),
      (415, ''Unsupported Media Type''), (500, ''Internal Server Error''), (501, ''Not Implemented'')]"

definition content_types :: "string list" where
  "content_types =
     [''text/plain'', ''text/html'', ''application/json'', ''application/octet-stream''] @ map snd mime_types"

definition response_typed :: "http_response \<Rightarrow> bool" where
  "response_typed r \<longleftrightarrow>
     version r = ''HTTP/1.1'' \<and>
     (case status_code r of None \<Rightarrow> False | Some sc \<Rightarrow> (sc, reason_phrase r) \<in> set statuses) \<and>
     (\<exists>ct \<in> set content_types. headers_map r =
        [(''Content-Length'', to_string_nat (length (message_body r))), (''Content-Type'', ct)])"

lemma length_before_type: "''Content-Length'' < ''Content-Type''"
  by code_simp

lemma response_typed_reply:
  "response_typed (reply sc rp ct mb) \<longleftrightarrow> (sc, rp) \<in> set statuses \<and> ct \<in> set content_types"
  using length_before_type by (auto simp: response_typed_def reply_def)

lemma mime_content_type: "get_mime_type p \<in> set content_types"
  by (auto simp: get_mime_type_def content_types_def image_iff split: option.split dest!: map_of_SomeD
      intro: rev_bexI)

lemma statuses_all [simp]:
  "(200, ''OK'') \<in> set statuses" "(201, ''Created'') \<in> set statuses"
  "(400, ''Bad Request'') \<in> set statuses" "(404, ''Not Found'') \<in> set statuses"
  "(415, ''Unsupported Media Type'') \<in> set statuses"
  "(500, ''Internal Server Error'') \<in> set statuses" "(501, ''Not Implemented'') \<in> set statuses"
  by (simp_all add: statuses_def)

lemma content_types_all [simp]:
  "''text/plain'' \<in> set content_types" "''text/html'' \<in> set content_types"
  "''application/json'' \<in> set content_types"
  by (simp_all add: content_types_def)

lemmas crud_defs = crud_handle_request_def handle_post_def handle_get_def handle_put_def
  handle_delete_def handle_list_def bad_request_def entity_not_found_def

lemma crud_typed: "fst (crud_handle_request h q s) = Inr r \<Longrightarrow> response_typed r"
  by (auto simp: crud_defs response_typed_reply andThen_eq_Inr Let_def
      split: option.splits prod.splits if_splits sum.splits)

lemma file_typed: "fst (file_handle_request h q w) = Inr r \<Longrightarrow> response_typed r"
  by (auto simp: file_handle_request_def response_typed_reply andThen_eq_Inr Let_def mime_content_type
      split: option.splits if_splits)

lemma handler_typed: "fst (handle_request h q w) = Inr r \<Longrightarrow> response_typed r"
  by (cases h)
    (auto simp: echo_handle_request_def health_handle_request_def not_found_handle_request_def
      sleep_handle_request_def crud_world_request_def response_typed_reply Let_def case_prod_unfold
      dest: crud_typed file_typed)

text \<open>
  C34: what a response is, whatever the request, the routes and the world: version 1.1, one of seven
  status codes with its own phrase, and exactly two headers, in this order: \<open>Content-Length\<close> with the
  length of the body, and \<open>Content-Type\<close> with one of the types the server knows.
\<close>

theorem response_type:
  "case fst (response_of router q w) of Inl e \<Rightarrow> True | Inr r \<Rightarrow> response_typed r"
  using handler_typed
  by (auto simp: response_of_def response_typed_reply split: sum.splits option.splits)

theorem response_type_witness:
  "fst (response_of health_routes (parse health_bytes) example_world) =
     Inr (reply 200 ''OK'' ''text/plain'' ''OK'') \<and> response_typed (reply 200 ''OK'' ''text/plain'' ''OK'')"
  using response_type [of health_routes "parse health_bytes" example_world]
  by (simp add: health_response)

section \<open>Loaded configurations\<close>

definition handler_config_typed :: "handler_config \<Rightarrow> bool" where
  "handler_config_typed hc \<longleftrightarrow>
     (handler_type hc = [] \<or> wf_token (handler_type hc)) \<and> map_ok (settings hc) \<and>
     list_all (\<lambda>(k, v). k \<noteq> ''handler'' \<and> wf_token k \<and> wf_token v) (settings hc)"

definition server_config_typed :: "server_config \<Rightarrow> bool" where
  "server_config_typed sc \<longleftrightarrow>
     INT_MIN \<le> port sc \<and> port sc \<le> INT_MAX \<and> map_ok (Server_Config.routes sc) \<and>
     list_all (\<lambda>(p, hc). wf_token p \<and> handler_config_typed hc) (Server_Config.routes sc)"

lemma wf_statement_token: "wf_statement st \<Longrightarrow> t \<in> set (tokens st) \<Longrightarrow> wf_token t"
  by (cases st) simp

lemma read_setting_typed:
  assumes "wf_statement st" "handler_config_typed hc"
  shows "handler_config_typed (read_setting st hc)"
proof (cases "tokens st")
  case (Cons key rest)
  show ?thesis
  proof (cases rest)
    case Nil
    with Cons assms show ?thesis by (simp add: read_setting_def)
  next
    case (Cons v vs)
    with \<open>tokens st = key # rest\<close> have "wf_token key" "wf_token v"
      using wf_statement_token [OF assms(1)] by simp_all
    with Cons \<open>tokens st = key # rest\<close> assms(2) show ?thesis
      by (simp add: read_setting_def handler_config_typed_def list_all_map_put)
  qed
qed (use assms in \<open>simp add: read_setting_def\<close>)

lemma parse_handler_config_typed:
  assumes "wf_config block"
  shows "handler_config_typed (parse_handler_config block)"
proof -
  have "handler_config_typed (fold read_setting sts hc)"
    if "\<forall>st \<in> set sts. wf_statement st" "handler_config_typed hc" for sts hc
    using that by (induction sts arbitrary: hc) (simp_all add: read_setting_typed)
  moreover have "handler_config_typed default_handler_config"
    by (simp add: handler_config_typed_def default_handler_config_def)
  ultimately show ?thesis
    using assms by (cases block) (simp add: parse_handler_config_def)
qed

lemma wf_statement_block: "wf_statement st \<Longrightarrow> child_block st = Some b \<Longrightarrow> wf_config b"
  by (cases st) simp

lemma read_server_statement_typed:
  assumes "wf_statement st" "server_config_typed sc" "read_server_statement st sc = Inr (go, sc')"
  shows "server_config_typed sc'"
proof -
  obtain key rest where t: "tokens st = key # rest"
    using assms(3) by (cases "tokens st") (simp_all add: read_server_statement_def)
  define step where "step = (if key = ''listen'' \<and> length (tokens st) \<ge> 2
              then (case stoi (tokens st ! 1) of
                      Inl e \<Rightarrow> (False, sc)
                    | Inr p \<Rightarrow> (True, sc\<lparr>port := p\<rparr>))
              else (True, sc))"
  obtain go1 sc1 where s1: "step = (go1, sc1)" by (cases step)
  have ok1: "server_config_typed sc1"
    using s1 assms(2) by (auto simp: step_def server_config_typed_def dest: stoi_range
        split: if_splits sum.splits)
  have "read_server_statement st sc =
      (if \<not> go1 then Inr (False, sc1)
       else Inr (True,
         if key = ''location'' \<and> length (tokens st) \<ge> 2
         then (case child_block st of
                 None \<Rightarrow> sc1
               | Some block \<Rightarrow>
                   sc1\<lparr>Server_Config.routes :=
                     map_put (tokens st ! 1) (parse_handler_config block) (Server_Config.routes sc1)\<rparr>)
         else sc1))"
    using s1 by (simp add: read_server_statement_def t step_def)
  moreover have "server_config_typed (sc1\<lparr>Server_Config.routes :=
      map_put (tokens st ! 1) (parse_handler_config b) (Server_Config.routes sc1)\<rparr>)"
    if "child_block st = Some b" "length (tokens st) \<ge> 2" for b
    using ok1 parse_handler_config_typed [OF wf_statement_block [OF assms(1) that(1)]]
      wf_statement_token [OF assms(1), of "tokens st ! 1"] that(2)
    by (simp add: server_config_typed_def list_all_map_put)
  ultimately show ?thesis
    using assms(3) ok1 by (auto split: if_splits option.splits)
qed

lemma read_server_block_typed:
  "\<forall>st \<in> set sts. wf_statement st \<Longrightarrow> server_config_typed sc \<Longrightarrow>
     read_server_block sts sc = Inr (b, sc') \<Longrightarrow> server_config_typed sc'"
  by (induction sts arbitrary: sc)
    (auto simp: andThen_eq_Inr split: if_splits dest: read_server_statement_typed)

lemma load_statements_typed:
  "\<forall>st \<in> set sts. wf_statement st \<Longrightarrow> server_config_typed sc \<Longrightarrow>
     load_statements sts sc = Inr (b, sc') \<Longrightarrow> server_config_typed sc'"
proof (induction sts)
  case (Cons st sts)
  show ?case
  proof (cases "child_block st")
    case None
    with Cons show ?thesis by (auto split: list.splits)
  next
    case (Some block)
    have "wf_config block" using wf_statement_block [OF _ Some] Cons.prems(1) by simp
    then have "\<forall>s \<in> set (statements block). wf_statement s" by (cases block) simp
    with Cons Some show ?thesis
      by (auto split: list.splits if_splits dest: read_server_block_typed)
  qed
qed simp

text \<open>
  C35: what a loaded configuration is, whatever file it was read from. When the text parses and the
  configuration loads, the port is a positive \<open>int\<close>, there is at least one route, the routes form an
  ordered map whose keys are tokens of the grammar, and in each of them the settings form an ordered
  map of tokens that never contains the key \<open>handler\<close>, which names the type instead.
\<close>

theorem loaded_config_type:
  assumes "parse_stream input (NginxConfig []) = Inr (True, c)"
    and "load_from_nginx_config c default_server_config = Inr (True, sc)"
  shows "0 < port sc \<and> Server_Config.routes sc \<noteq> [] \<and> server_config_typed sc"
proof -
  have "wf_config c" by (rule parse_stream_sound(1) [OF assms(1)])
  then have wf: "\<forall>st \<in> set (statements c). wf_statement st" by (cases c) simp
  have "server_config_typed default_server_config"
    by (simp add: server_config_typed_def default_server_config_def INT_MIN_def INT_MAX_def)
  from load_statements_typed [OF wf this] assms(2) load_positive [of "statements c"] show ?thesis
    by (auto simp: load_from_nginx_config_def)
qed

definition small_config :: string where
  "small_config = ''server { listen 80; location /a { handler EchoHandler; } }''"

theorem loaded_config_type_witness:
  "\<exists>c sc. parse_stream small_config (NginxConfig []) = Inr (True, c) \<and>
     load_from_nginx_config c default_server_config = Inr (True, sc) \<and> 0 < port sc"
proof -
  let ?loc = "NginxConfigStatement [''location'', ''/a'']
    (Some (NginxConfig [NginxConfigStatement [''handler'', ''EchoHandler''] None]))"
  let ?c = "NginxConfig [NginxConfigStatement [''server'']
    (Some (NginxConfig [NginxConfigStatement [''listen'', ''80''] None, ?loc]))]"
  let ?sc = "\<lparr>port = 80, routes = [(''/a'', \<lparr>handler_type = ''EchoHandler'', settings = []\<rparr>)]\<rparr>"
  have p: "parse_stream small_config (NginxConfig []) = Inr (True, ?c)" by code_simp
  have l: "load_from_nginx_config ?c default_server_config = Inr (True, ?sc)" by code_simp
  from loaded_config_type [OF p l] p l show ?thesis by blast
qed

end
