(* ===== verification/Loop_Bounds.thy ===== *)
theory Loop_Bounds
  imports Config_Lexing Mock_Filesystem
begin

text \<open>
  The two \<open>while (true)\<close> loops of the program, the token loop of the configuration parser
  (src/config_parser.cc) and the search for an id (src/mock_filesystem.cc), with a bound on the number of
  passes. The versions here count: they give up, with \<open>None\<close>, when a pass is needed that the count does not
  allow, and so do not rely on any termination proof.
\<close>

section \<open>The token loop\<close>

fun parse_passes :: "nat \<Rightarrow> parser_state \<Rightarrow> string \<Rightarrow> (bool \<times> parser_state) outcome option" where
  "parse_passes 0 st input = None"
| "parse_passes (Suc n) st input =
     (let (token_type, token, rest) = parse_token TOKEN_STATE_INITIAL_WHITESPACE [] input;
          st = print_line (token_line token_type token) st
      in case parse_step st token_type token of
           Break \<Rightarrow> Some (Inr (False, print_line (bad_transition_line (last_token_type st) token_type) st))
         | Next st' \<Rightarrow> parse_passes n st' rest
         | Return b \<Rightarrow> Some (Inr (b, st))
         | Undefined e \<Rightarrow> Some (Inl e))"

lemma parse_passes_loop: "length (lex input) \<le> n \<Longrightarrow> parse_passes n st input = Some (parse_loop st input)"
proof (induction n arbitrary: st input)
  case 0
  have "lex input \<noteq> []"
    by (cases "parse_token TOKEN_STATE_INITIAL_WHITESPACE [] input")
      (simp add: lex.simps [of input] split: if_splits)
  with 0 show ?case by simp
next
  case (Suc n)
  obtain tt tok rest where
    p: "parse_token TOKEN_STATE_INITIAL_WHITESPACE [] input = (tt, tok, rest)"
    by (cases "parse_token TOKEN_STATE_INITIAL_WHITESPACE [] input") auto
  have "parse_passes n st' rest = Some (parse_loop st' rest)"
    if "parse_step (print_line (token_line tt tok) st) tt tok = Next st'" for st'
  proof -
    from parse_step_Next_type [OF that] have "lex input = (tt, tok) # lex rest"
      by (intro lex_step [OF p]) simp_all
    with Suc.prems show ?thesis by (intro Suc.IH) simp
  qed
  then show ?case
    by (simp add: p parse_loop.simps [of st input] Let_def split: step_result.split)
qed

lemma length_lex: "length (lex input) \<le> length input + 1"
proof (induction input rule: lex.induct)
  case (1 input)
  obtain tt tok rest where
    p: "parse_token TOKEN_STATE_INITIAL_WHITESPACE [] input = (tt, tok, rest)"
    by (cases "parse_token TOKEN_STATE_INITIAL_WHITESPACE [] input") auto
  show ?case
  proof (cases "tt = TOKEN_TYPE_EOF \<or> tt = TOKEN_TYPE_ERROR")
    case True
    then show ?thesis by (simp add: lex_end [OF p])
  next
    case False
    then have "lex input = (tt, tok) # lex rest" by (intro lex_step [OF p]) simp_all
    moreover have "length rest < length input" using parse_token_progress [OF p] False by simp
    ultimately show ?thesis using "1.IH" [OF p [symmetric] refl] False by simp
  qed
qed

section \<open>The search for an id\<close>

fun next_id_passes :: "nat \<Rightarrow> int list \<Rightarrow> string \<Rightarrow> int \<Rightarrow> string outcome option" where
  "next_id_passes 0 used ename candidate = None"
| "next_id_passes (Suc n) used ename candidate =
     (if candidate \<notin> set used then Some (Inr (to_string_int candidate))
      else if candidate = INT_MAX
      then Some (Inl (Overflow_error (''MockFilesystem: no available integer IDs for entity '' @ ename)))
      else next_id_passes n used ename (candidate + 1))"

lemma next_id_passes_loop:
  "length (filter (\<lambda>x. c \<le> x) used) < n \<Longrightarrow>
     next_id_passes n used ename c = Some (next_id_loop used ename c)"
proof (induction n arbitrary: c)
  case (Suc n)
  show ?case
  proof (cases "c \<in> set used")
    case True
    with filter_ge_shrinks [OF True] Suc show ?thesis
      by (simp add: next_id_loop.simps [of used ename c])
  next
    case False
    then show ?thesis by (simp add: next_id_loop.simps [of used ename c])
  qed
qed simp

text \<open>
  C33: both loops end. The parser makes at most one pass more than its input has bytes, the search for an
  id at most one pass more than ids are stored. With that many passes the counting versions give what
  the loops give.
\<close>

theorem loops_terminate:
  "parse_passes (length input + 1) st input = Some (parse_loop st input) \<and>
   next_id_passes (length (mock_list_entity_ids s e) + 1) (used_ids (mock_list_entity_ids s e)) (name e) 1 =
     Some (mock_next_entity_id s e)"
proof
  show "parse_passes (length input + 1) st input = Some (parse_loop st input)"
    by (rule parse_passes_loop) (rule length_lex)
  have "length (filter (\<lambda>x. 1 \<le> x) (used_ids (mock_list_entity_ids s e))) \<le>
      length (mock_list_entity_ids s e)"
    using length_filter_le length_used_ids by (rule order_trans)
  then show "next_id_passes (length (mock_list_entity_ids s e) + 1)
      (used_ids (mock_list_entity_ids s e)) (name e) 1 = Some (mock_next_entity_id s e)"
    by (simp only: mock_next_entity_id_def) (rule next_id_passes_loop, simp)
qed

end
