(* ===== verification/Whole_Server.thy ===== *)
theory Whole_Server
  imports Server_Main System_Live
begin

text \<open>
  The program as a whole: from the configuration file through \<open>main\<close>, the accept loop, the threads and the
  sessions to the responses of a client.
\<close>

lemma accept_first:
  assumes "0 < threads"
  shows "system_step router ip threads (start_system p w) (Accept False) (accepted p w)"
  using step_accept [of "start_system p w" threads router ip False] assms
  by (simp add: start_system_def accepted_def make_server_def start_accept_def accept_completes_one)

lemma accepted_ok:
  assumes "0 < (threads :: nat)" "world_ok w"
  shows "system_ok (accepted p w)"
  by (rule system_ok_reachable [OF assms(2) accepted_reachable [OF assms(1)]])

lemma accepted_idle: "idle (conns (accepted p w) ! 0)" "sent (conns (accepted p w) ! 0) = []"
  by (simp_all add: idle_def open_connection_def start_def make_session_def)


definition health_config :: string where
  "health_config = ''server { listen 80; location /health { handler HealthHandler; } }''"


end
