(* ===== verification/Spec2Isabelle.thy ===== *)
theory Spec2Isabelle
  imports Config_Grammar Server_Config Http_Response Http_Request Http_Helper Logger
    Filesystem_Interface Mock_Filesystem Store_Log Crud_Handler Crud_Steps Crud_Interleaving Crud_Anomalies Crud_Posts
    Request_Handler File_Handler
    Handler_Factory Path_Router Session Session_Spec Request_Boundaries End_To_End Static_Site Server System System_Spec
    System_Live System_Store System_Calls Store_Races Fair_Runs
    Exchanges Session_Overlap Site_Served Server_Main Message_Types Loop_Bounds Whole_Server
begin

text \<open>
  A verification development for the d20 web server, a small HTTP/1.1 server in C++ on Boost.Asio
  (sources under src/src and src/include of the repository).

  The program. \<open>main\<close> (server_main.cc) parses an nginx-style configuration (config_parser.cc), loads the
  port and the routes from it (server_config.cc), makes a router (path_router.cc) and a server
  (server.cc) and runs the event loop on several threads. The server accepts connections; each one is
  a session (session.cc) that reads bytes, decides whether it has a request (http_helper.cc,
  http_request.cc), asks the router for a handler, which the factory (handler_factory.cc) creates,
  runs it and writes the response (http_response.cc). The handlers are echo, health, not found,
  sleep, static files (file_handler.cc) and a CRUD API (crud_handler.cc) over an abstract file system
  (filesystem_interface.h) that is implemented in memory (mock_filesystem.cc).

  The theories, in the order of their imports.

  \<^item> \<open>Prelude\<close>: exceptions and undefined behaviour as values of \<open>cpp_error\<close>, results as sums, bytes.
  \<^item> \<open>Std_String\<close>, \<open>Std_Numeric\<close>, \<open>Std_Map\<close>: what the code uses of the C++ standard library, with the
    locale \<open>ordered_map\<close> interpreted by sorted association lists.
  \<^item> \<open>Config_Parser\<close>, \<open>Config_Lexing\<close>, \<open>Config_Tree\<close>, \<open>Config_Roundtrip\<close>, \<open>Config_Grammar\<close>: the tree,
    the serialiser, the two state machines of the parser, then their specification: the parser never
    has undefined behaviour, accepts exactly the token sequences of its grammar, and inverts the
    serialiser. The locale \<open>slot\<close> describes a place in the tree under construction.
  \<^item> \<open>Server_Config\<close>: port and routes out of the tree.
  \<^item> \<open>Http_Framing\<close>, \<open>Http_Response\<close>, \<open>Http_Request\<close>, \<open>Http_Helper\<close>: messages. A response is framed
    so that a client reads it back; a well-formed request parses to its parts.
  \<^item> \<open>Filesystem_Interface\<close>, \<open>Mock_Filesystem\<close>, \<open>Crud_Handler\<close>: the store and the API. The locale
    \<open>filesystem\<close> is the contract of the abstract class, \<open>reliable_filesystem\<close> extends it, the in-memory
    store interprets both, and the handler refines an API on partial maps.
  \<^item> \<open>Crud_Steps\<close>, \<open>Crud_Interleaving\<close>, \<open>Crud_Anomalies\<close>, \<open>Crud_Posts\<close>: the handlers of the API again, as
    programs over single calls of the store, and any number of them run by several threads in any order
    of their calls. Uninterrupted they are the handlers; requests for different types do not interfere;
    without a DELETE nothing raises; with one, GET can raise and PUT can restore what was deleted; and
    concurrent POSTs store what their clients are told, but can all be told the same id.
  \<^item> \<open>Request_Handler\<close>, \<open>File_Handler\<close>, \<open>Handler_Factory\<close>, \<open>Path_Router\<close>: the handlers, their creation
    and their choice. The locales \<open>request_handler\<close> and \<open>total_request_handler\<close> are what the session
    relies on; every handler class interprets one of them, and so does the virtual call.
  \<^item> \<open>Logger\<close>, \<open>Session\<close>, \<open>Session_Spec\<close>: log records; the completion handlers of a connection as
    functions to the operations they start, and a connection as a transition system in which the
    environment completes operations and other connections change the shared world.
  \<^item> \<open>Store_Log\<close>: the log records of the in-memory store; failures and only failures are logged from
    the level of warnings on.
  \<^item> \<open>Request_Boundaries\<close>, \<open>End_To_End\<close>: what a session takes for one request, whole requests and their
    responses, and a POST and a GET followed from bytes to bytes through session, parser, router, CRUD
    handler, store and serialiser.
  \<^item> \<open>Static_Site\<close>: a static route as a site, that is what a client gets for every target: the bytes
    and the MIME type of the file that its components name below the root, or the error that applies.
  \<^item> \<open>Server\<close>: the accept loop and the conversions of the port.
  \<^item> \<open>System\<close>, \<open>System_Spec\<close>, \<open>System_Live\<close>, \<open>System_Store\<close>: the running server, that is the event
    loop on several threads, the accept loop, all connections and the world they share, as a labelled
    transition system. It refines the transition system of one connection (so what \<open>Session_Spec\<close> shows
    of a connection holds of each), runs at most one handler per session, stops as a whole at an
    exception, settles when no input arrives, answers conversations, and its store refines the API on
    partial maps.
  \<^item> \<open>System_Calls\<close>: the same server with the store calls of CRUD handlers as steps of their own. It covers
    the server with atomic handlers, and shows that two clients can end the process.
  \<^item> \<open>Store_Races\<close>: what each method of the store reads and changes, and which calls race: GETs never do, a
    POST does with every other request.
  \<^item> \<open>Fair_Runs\<close>: infinite runs in which no handler is run for ever and every write completes or fails.
    These two are the only fairness assumptions; in every such run a request that has been read is answered.
  \<^item> \<open>Exchanges\<close>: the history of every connection. In every run the bytes taken are the requests answered and
    the buffer, and the client is sent the specified answers to its own requests, once and in order.
  \<^item> \<open>Session_Overlap\<close>: one session with its handlers split where they call \<open>async_write\<close>, and the strings that
    writes read from. A write that is not done when its handler returns reads a destroyed string, and a client that sends
    its next request at once can have the last one answered again.
  \<^item> \<open>Site_Served\<close>: a static route in fair runs of the whole server, while files change.
  \<^item> \<open>Server_Main\<close>, \<open>Whole_Server\<close>: the two programs with standard output, standard error, log records
    and exit codes; a configuration file becomes a server that answers.
  \<^item> \<open>Message_Types\<close>: what every parsed request, every response and every loaded configuration is.
  \<^item> \<open>Loop_Bounds\<close>: the two loops that have no bound in the code, with the number of passes counted.

  Correspondence. A class is a record with its fields (without the trailing underscore), an enum a
  datatype, a method a definition with its name; where two classes share a method name, one carries
  its class in the name (\<open>get_request_header\<close>, \<open>set_request_version\<close>, \<open>crud_handle_request\<close>). An
  out-parameter or a changed object is returned. A \<open>std::string\<close> is a list of bytes, a \<open>std::map\<close> a
  sorted association list, an \<open>unordered_map\<close> an association list in iteration order, of which the
  answers are proved independent. An \<open>int\<close> is an integer whose range the conversions check, the body
  length of the session a 64-bit word, the port a 16-bit word; lengths of strings are natural numbers.

  Loops. All loops are recursive functions with proved termination, so the model has no fuel: the parser
  and the line readers consume input, the search for an id leaves one used id behind at each step.
  \<open>Loop_Bounds\<close> states the same loops with a number of passes as fuel: one more than the bytes of the
  input is enough for the parser, one more than the number of stored ids for the search.

  Threads. A worker takes a completed operation (\<open>Dispatch\<close>) and later returns from its handler
  (\<open>Finish\<close>); the handler acts on session and world at that moment. The code is finer in three ways, each
  of which has a model of its own that covers the coarse one and shows what else happens. The calls of the
  store that a CRUD handler makes interleave with those of others (\<open>System_Calls\<close>, where each call is one
  step). Two such calls can run at the same time (\<open>Store_Races\<close>: which of them are data races). And a
  session goes on after it has called \<open>async_write\<close>, while the write completes and the next
  handler of the same session runs on another thread (\<open>Session_Overlap\<close>). Properties of \<open>Session\<close> and \<open>System\<close> are therefore
  about the executions in which a handler ends before the operation that it has started completes. The first
  calls of \<open>getLogger\<close> are interleaved in \<open>Logger\<close>.

  What comes from outside is a parameter: the file system of the operating system (\<open>os_files\<close>, whose
  functions may raise \<open>filesystem_error\<close> and nothing else, \<open>os_ok\<close>), the completion of asynchronous
  operations, the address of the peer, the error of binding a port and the number of hardware threads.

  Not modelled: Boost.Asio's and Boost.Log's own work (the calls that set up the sinks are values with
  their arguments), memory allocation failure, what a program does after undefined
  behaviour (a race on the store, or a write from a destroyed string, is the end of what is said), and the
  reuse of the memory of destroyed strings. \<open>HttpRequest::full_path\<close> is declared but has no
  definition in the repository.
\<close>

end
